theory Spec2Isabelle
  imports Complex_Main "HOL-Library.Sublist"
begin

section \<open>Strings\<close>

text \<open>
  A JavaScript string is a sequence of UTF-16 code units. The model uses HOL strings: a
  \<^typ>\<open>char\<close> is a code unit below 256 (ASCII and Latin-1), which covers every pattern
  of \<^verbatim>\<open>index.js\<close>. The two glyphs of the progress bar lie outside this range and are
  never inspected by the code; a bar is modelled by the two repeat counts.

  \<open>is_space\<close> is the class \<^verbatim>\<open>\s\<close> of a regular expression, which is also what
  \<^verbatim>\<open>String.prototype.trim\<close> removes: TAB, LF, VT, FF, CR, SP and NBSP below 256.
  \<open>is_digit\<close> is \<^verbatim>\<open>\d\<close>.
\<close>

definition is_space :: "char \<Rightarrow> bool" where
  "is_space c = (c \<in> set [CHR 0x09, CHR 0x0A, CHR 0x0B, CHR 0x0C, CHR 0x0D, CHR 0x20, CHR 0xA0])"

definition is_digit :: "char \<Rightarrow> bool" where
  "is_digit c = (c \<in> set ''0123456789'')"

definition non_space :: "char \<Rightarrow> bool" where
  "non_space c = (\<not> is_space c)"

text \<open>\<^verbatim>\<open>output.split("\n")\<close>: one piece more than there are newlines; never empty.\<close>

fun split_newline :: "string \<Rightarrow> string list" where
  "split_newline [] = [[]]"
| "split_newline (c # cs) =
     (case split_newline cs of
        [] \<Rightarrow> [[c]]
      | piece # pieces \<Rightarrow>
          if c = CHR 0x0A then [] # piece # pieces else (c # piece) # pieces)"

text \<open>\<^verbatim>\<open>line.includes(pat)\<close>.\<close>

fun includes_str :: "string \<Rightarrow> string \<Rightarrow> bool" where
  "includes_str [] pat = (pat = [])"
| "includes_str (c # cs) pat = (prefix pat (c # cs) \<or> includes_str cs pat)"

text \<open>
  \<^verbatim>\<open>line.match(re)\<close> for an unanchored expression without the global flag: the match
  that starts leftmost. \<open>m\<close> is the expression anchored at the start of its argument.
\<close>

fun regex_search :: "(string \<Rightarrow> 'a option) \<Rightarrow> string \<Rightarrow> 'a option" where
  "regex_search m [] = m []"
| "regex_search m (c # cs) =
     (case m (c # cs) of Some r \<Rightarrow> Some r | None \<Rightarrow> regex_search m cs)"

text \<open>
  \<^verbatim>\<open>(\d+\.?\d*)%\<close> at the start of \<open>s\<close>. The digits are taken greedily; giving
  some back never helps, because the next character would again be a digit or the dot.
\<close>

definition percent_token :: "string \<Rightarrow> string option" where
  "percent_token s =
     (let ip = takeWhile is_digit s; r = dropWhile is_digit s
      in if ip = [] then None
         else case r of
           [] \<Rightarrow> None
         | c # r' \<Rightarrow>
             if c = CHR ''%'' then Some ip
             else if c = CHR ''.'' then
               (case dropWhile is_digit r' of
                  [] \<Rightarrow> None
                | d # _ \<Rightarrow>
                    if d = CHR ''%'' then Some (ip @ CHR ''.'' # takeWhile is_digit r')
                    else None)
             else None)"

text \<open>\<^verbatim>\<open>\s+\<close> at the start of \<open>s\<close>: the rest after at least one blank, all blanks taken.\<close>

definition after_spaces :: "string \<Rightarrow> string option" where
  "after_spaces s =
     (case s of [] \<Rightarrow> None
      | c # _ \<Rightarrow> if is_space c then Some (dropWhile is_space s) else None)"

text \<open>\<^verbatim>\<open>/\[download\]\s+(\d+\.?\d*)%/\<close>, group 1.\<close>

definition download_at :: "string \<Rightarrow> string option" where
  "download_at s =
     (if prefix ''[download]'' s then
        (case after_spaces (drop 10 s) of None \<Rightarrow> None | Some r \<Rightarrow> percent_token r)
      else None)"

definition downloadMatch :: "string \<Rightarrow> string option" where
  "downloadMatch line = regex_search download_at line"

text \<open>
  \<^verbatim>\<open>/of\s+~?\s*(\S+)/\<close>, group 1. When the tilde is followed by blanks only, the
  expression backtracks and the group is the tilde itself.
\<close>

definition size_at :: "string \<Rightarrow> string option" where
  "size_at s =
     (if prefix ''of'' s then
        (case after_spaces (drop 2 s) of
           None \<Rightarrow> None
         | Some [] \<Rightarrow> None
         | Some (c # t) \<Rightarrow>
             if c = CHR ''~'' then
               (if dropWhile is_space t = [] then Some ''~''
                else Some (takeWhile non_space (dropWhile is_space t)))
             else Some (takeWhile non_space (c # t)))
      else None)"

definition sizeMatch :: "string \<Rightarrow> string option" where
  "sizeMatch line = regex_search size_at line"

text \<open>
  \<^verbatim>\<open>(\S+\/s)\<close> inside a run \<open>w\<close> of non-blanks: the longest prefix of \<open>w\<close> that
  ends in \<^verbatim>\<open>/s\<close> and has a character before it.
\<close>

fun speed_token :: "string \<Rightarrow> string option" where
  "speed_token [] = None"
| "speed_token (c # cs) =
     (case speed_token cs of
        Some t \<Rightarrow> Some (c # t)
      | None \<Rightarrow> if prefix ''/s'' cs then Some (c # ''/s'') else None)"

text \<open>\<^verbatim>\<open>/at\s+(\S+\/s)/\<close>, group 1.\<close>

definition speed_at :: "string \<Rightarrow> string option" where
  "speed_at s =
     (if prefix ''at'' s then
        (case after_spaces (drop 2 s) of
           None \<Rightarrow> None
         | Some r \<Rightarrow> speed_token (takeWhile non_space r))
      else None)"

definition speedMatch :: "string \<Rightarrow> string option" where
  "speedMatch line = regex_search speed_at line"

text \<open>\<^verbatim>\<open>/ETA\s+(\S+)/\<close>, group 1.\<close>

definition eta_at :: "string \<Rightarrow> string option" where
  "eta_at s =
     (if prefix ''ETA'' s then
        (case after_spaces (drop 3 s) of
           None \<Rightarrow> None
         | Some [] \<Rightarrow> None
         | Some (c # t) \<Rightarrow> Some (takeWhile non_space (c # t)))
      else None)"

definition etaMatch :: "string \<Rightarrow> string option" where
  "etaMatch line = regex_search eta_at line"

section \<open>Numbers\<close>

text \<open>
  A JavaScript number is an IEEE 754 double: a rational, an infinity or NaN. Negative
  zero is identified with zero, which no operation used here tells apart.
  \<open>fl\<close> rounds a rational to the nearest double, ties to even: the last place of a
  double of magnitude \<open>2 ^ k\<close> has weight \<open>2 ^ (k - 52)\<close>, and never less than
  \<open>2 ^ - 1074\<close>; a result that reaches \<open>2 ^ 1024\<close> overflows to an infinity.
\<close>

datatype number = Num rat | PosInfinity | NegInfinity | NaN

fun ilog2 :: "nat \<Rightarrow> nat" where
  "ilog2 n = (if n < 2 then 0 else Suc (ilog2 (n div 2)))"

definition pow2 :: "int \<Rightarrow> rat" where
  "pow2 e = (if 0 \<le> e then 2 ^ nat e else 1 / 2 ^ nat (- e))"

definition floor_log2 :: "rat \<Rightarrow> int" where
  "floor_log2 q =
     (if 1 \<le> q then int (ilog2 (nat \<lfloor>q\<rfloor>))
      else - int (Suc (ilog2 (nat \<lceil>1 / q\<rceil> - 1))))"

definition round_half_even :: "rat \<Rightarrow> int" where
  "round_half_even q =
     (let n = \<lfloor>q\<rfloor>; r = q - of_int n
      in if r < 1 / 2 then n else if 1 / 2 < r then n + 1
         else if even n then n else n + 1)"

definition fl :: "rat \<Rightarrow> number" where
  "fl q =
     (if q = 0 then Num 0
      else let e = max (floor_log2 \<bar>q\<bar> - 52) (- 1074);
               m = round_half_even (\<bar>q\<bar> / pow2 e)
           in if 971 < e \<or> (e = 971 \<and> m = 2 ^ 53)
              then (if 0 < q then PosInfinity else NegInfinity)
              else Num (if 0 < q then of_int m * pow2 e else - (of_int m * pow2 e)))"

text \<open>\<^verbatim>\<open>a === b\<close> on numbers: NaN equals nothing.\<close>

definition strict_eq :: "number \<Rightarrow> number \<Rightarrow> bool" where
  "strict_eq a b = (a \<noteq> NaN \<and> a = b)"

text \<open>\<^verbatim>\<open>Math.floor\<close> and \<^verbatim>\<open>Math.round\<close> (ties go up).\<close>

fun math_floor :: "number \<Rightarrow> number" where
  "math_floor (Num q) = Num (of_int \<lfloor>q\<rfloor>)"
| "math_floor x = x"

fun math_round :: "number \<Rightarrow> number" where
  "math_round (Num q) = Num (of_int \<lfloor>q + 1 / 2\<rfloor>)"
| "math_round x = x"

text \<open>\<^verbatim>\<open>x / c\<close> and \<^verbatim>\<open>x * c\<close> for a finite constant \<open>c > 0\<close>; \<^verbatim>\<open>w - x\<close> for a finite \<open>w\<close>.\<close>

fun div_const :: "number \<Rightarrow> rat \<Rightarrow> number" where
  "div_const (Num q) c = fl (q / c)"
| "div_const x c = x"

fun mul_const :: "number \<Rightarrow> rat \<Rightarrow> number" where
  "mul_const (Num q) c = fl (q * c)"
| "mul_const x c = x"

fun const_minus :: "rat \<Rightarrow> number \<Rightarrow> number" where
  "const_minus w (Num q) = fl (w - q)"
| "const_minus w PosInfinity = NegInfinity"
| "const_minus w NegInfinity = PosInfinity"
| "const_minus w NaN = NaN"

text \<open>
  The value of an unsigned decimal \<^verbatim>\<open>digits[.digits]\<close>, and \<^verbatim>\<open>parseFloat\<close> on such
  a string (the only strings it is applied to): the nearest double.
\<close>

definition digit_val :: "char \<Rightarrow> nat" where
  "digit_val c = of_char c - 48"

definition digits_value :: "string \<Rightarrow> 'a::semiring_1" where
  "digits_value ds = foldl (\<lambda>n c. 10 * n + of_nat (digit_val c)) 0 ds"

definition decimal_value :: "string \<Rightarrow> rat" where
  "decimal_value s =
     (let ip = takeWhile is_digit s;
          fp = takeWhile is_digit (drop 1 (dropWhile is_digit s))
      in digits_value ip + digits_value fp / 10 ^ length fp)"

definition parseFloat :: "string \<Rightarrow> number" where
  "parseFloat s = (if takeWhile is_digit s = [] then NaN else fl (decimal_value s))"

section \<open>Utility functions\<close>

subsection \<open>formatBytes\<close>

text \<open>
  \<^verbatim>\<open>
  function formatBytes(bytes, decimals = 2) {
    if (bytes === 0) return "0 Bytes";
    const k = 1024;
    const dm = decimals < 0 ? 0 : decimals;
    const sizes = ["Bytes", "KB", "MB", "GB", "TB"];
    const i = Math.floor(Math.log(bytes) / Math.log(k));
    return parseFloat((bytes / Math.pow(k, i)).toFixed(dm)) + " " + sizes[i];
  }\<close>
  Every call passes a file size and leaves \<^verbatim>\<open>decimals\<close> at 2, so \<open>bytes\<close> is a
  natural number and \<open>dm = 2\<close>.
  \<^item> \<open>unit_index\<close> is \<^verbatim>\<open>Math.floor(Math.log(bytes) / Math.log(k))\<close> in doubles, for a
    size below \<open>2 ^ 53\<close>, where every integer is a double. \<^verbatim>\<open>Math.log\<close> rounds the
    logarithm to a double and the division rounds once more. The quotient reaches the
    integer \<open>j\<close> when the size reaches \<open>1024 ^ j\<close>, which \<open>exact_index\<close> counts, and
    in one more case: the logarithms of the three sizes below \<open>1024 ^ 5\<close> round to the
    double of the logarithm of \<open>1024 ^ 5\<close>, so that their quotient is 5 and not a
    little less (\<open>rounds_to_power\<close>). Below the smaller powers the next size is too
    far from the power for that. ECMAScript leaves the last bit of \<^verbatim>\<open>Math.log\<close> to
    the engine; these are the values with the logarithm of \<^verbatim>\<open>fdlibm\<close> and with that
    of the C library. From \<open>2 ^ 53\<close> on, the doubles just below a higher power of 1024
    round in the same way, which is not modelled.
  \<^item> \<^verbatim>\<open>bytes / Math.pow(k, i)\<close> divides a double by a power of two and is exact.
  \<^item> \<open>toFixed2\<close> is \<^verbatim>\<open>toFixed(2)\<close>: the integer \<open>n\<close> with \<open>n / 100\<close> nearest to the
    value, the larger one on a tie, printed with two fraction digits.
  \<^item> \<open>number_text\<close> is \<^verbatim>\<open>parseFloat(s) + ""\<close> on such a string of at most 15
    significant digits: the double nearest to it prints as the same decimal without
    its trailing zeros.
  \<^item> \<open>sizes_at\<close> is \<^verbatim>\<open>sizes[i]\<close>: \<open>None\<close> is \<^verbatim>\<open>undefined\<close>, which the
    concatenation prints as the word \<^verbatim>\<open>undefined\<close>.
\<close>

definition sizes :: "string list" where
  "sizes = [''Bytes'', ''KB'', ''MB'', ''GB'', ''TB'']"

definition sizes_at :: "nat \<Rightarrow> string option" where
  "sizes_at i = (if i < length sizes then Some (sizes ! i) else None)"

fun exact_index :: "nat \<Rightarrow> nat" where
  "exact_index n = (if n < 1024 then 0 else Suc (exact_index (n div 1024)))"

definition rounds_to_power :: "nat \<Rightarrow> bool" where
  "rounds_to_power n = (1024 ^ 5 \<le> n + 3 \<and> n < 1024 ^ 5)"

definition unit_index :: "nat \<Rightarrow> nat" where
  "unit_index n = (if rounds_to_power n then Suc (exact_index n) else exact_index n)"

definition digit_char :: "nat \<Rightarrow> char" where
  "digit_char d = ''0123456789'' ! d"

fun digits_of :: "nat \<Rightarrow> string" where
  "digits_of n = (if n < 10 then [digit_char n] else digits_of (n div 10) @ [digit_char (n mod 10)])"

definition toFixed2 :: "rat \<Rightarrow> string" where
  "toFixed2 x =
     (let n = nat \<lfloor>x * 100 + 1 / 2\<rfloor>
      in digits_of (n div 100) @ CHR ''.'' # [digit_char (n mod 100 div 10), digit_char (n mod 10)])"

definition number_text :: "string \<Rightarrow> string" where
  "number_text s =
     (let ip = takeWhile is_digit s;
          fp = rev (dropWhile (\<lambda>c. c = CHR ''0'') (rev (drop 1 (dropWhile is_digit s))))
      in if fp = [] then ip else ip @ CHR ''.'' # fp)"

definition formatBytes :: "nat \<Rightarrow> string" where
  "formatBytes bytes =
     (if bytes = 0 then ''0 Bytes''
      else let i = unit_index bytes
           in number_text (toFixed2 (of_nat bytes / 1024 ^ i)) @ '' '' @
              (case sizes_at i of Some u \<Rightarrow> u | None \<Rightarrow> ''undefined''))"

subsection \<open>createProgressBar\<close>

text \<open>
  \<^verbatim>\<open>
  function createProgressBar(percentage, width = 40) {
    const filled = Math.round((percentage / 100) * width);
    const empty = width - filled;
    return `[${"\<dots>".repeat(filled)}${"\<dots>".repeat(empty)}]`;
  }\<close>
  \<^verbatim>\<open>String.prototype.repeat\<close> truncates its count to an integer (NaN counts as 0)
  and throws a RangeError when the count is negative or infinite. The result is the
  pair of the two counts. The width is a natural number (40 in every call).
\<close>

datatype js_error = RangeError

definition repeat_count :: "number \<Rightarrow> js_error + nat" where
  "repeat_count x =
     (case x of
        Num q \<Rightarrow>
          (let n = (if q < 0 then - \<lfloor>- q\<rfloor> else \<lfloor>q\<rfloor>)
           in if n < 0 then Inl RangeError else Inr (nat n))
      | NaN \<Rightarrow> Inr 0
      | _ \<Rightarrow> Inl RangeError)"

definition createProgressBar :: "number \<Rightarrow> nat \<Rightarrow> js_error + nat \<times> nat" where
  "createProgressBar percentage width =
     (let filled = math_round (mul_const (div_const percentage 100) (of_nat width));
          empty = const_minus (of_nat width) filled
      in case repeat_count filled of
           Inl e \<Rightarrow> Inl e
         | Inr f \<Rightarrow> (case repeat_count empty of Inl e \<Rightarrow> Inl e | Inr n \<Rightarrow> Inr (f, n)))"

section \<open>The handler of the subprocess's standard output\<close>

text \<open>
  \<^verbatim>\<open>downloadVideo\<close> keeps three variables for the handlers of one subprocess:
  \<^verbatim>\<open>let lastProgress = -1; let isDownloading = false; let isMerging = false;\<close>
\<close>

record classifier =
  lastProgress :: number
  isDownloading :: bool
  isMerging :: bool

definition init :: classifier where
  "init = \<lparr>lastProgress = Num (- 1), isDownloading = False, isMerging = False\<rparr>"

text \<open>
  What the handler prints, one event for each write:
  \<^item> \<open>Downloading bar progress speed eta size\<close>: the status line, rewritten in place,
    made of the bar, \<^verbatim>\<open>progress.toFixed(1)\<close> and the three optional fields;
  \<^item> \<open>DownloadInitialized\<close>: "Download initialized successfully";
  \<^item> \<open>DownloadCompleted\<close>: "Download completed!";
  \<^item> \<open>Merging\<close>: "Merging video and audio streams...";
  \<^item> \<open>CleaningUp\<close>: "Cleaning up temporary files...";
  \<^item> \<open>EmbeddingMetadata\<close>: "Embedding metadata...".
  An exception thrown inside the handler is not caught anywhere: what was printed
  before stays printed, and nothing runs after it. A run is therefore the events
  printed so far, with either the exception or the state to go on from.
\<close>

datatype event =
    Downloading "nat \<times> nat" number "string option" "string option" "string option"
  | DownloadInitialized
  | DownloadCompleted
  | Merging
  | CleaningUp
  | EmbeddingMetadata

type_synonym run = "event list \<times> (js_error + classifier)"

definition and_then :: "run \<Rightarrow> (classifier \<Rightarrow> run) \<Rightarrow> run" where
  "and_then r f =
     (case r of
        (evs, Inl e) \<Rightarrow> (evs, Inl e)
      | (evs, Inr st) \<Rightarrow> (case f st of (evs', r') \<Rightarrow> (evs @ evs', r')))"

text \<open>\<^verbatim>\<open>if (etaMatch && etaMatch[1] !== "Unknown")\<close>\<close>

definition eta_shown :: "string \<Rightarrow> string option" where
  "eta_shown line =
     (case etaMatch line of
        None \<Rightarrow> None
      | Some t \<Rightarrow> if t \<noteq> ''Unknown'' then Some t else None)"

text \<open>
  The first \<^verbatim>\<open>if\<close> of the loop body (download progress):
  \<^verbatim>\<open>
  const downloadMatch = line.match(/\[download\]\s+(\d+\.?\d*)%/);
  if (downloadMatch) {
    isDownloading = true;
    const progress = parseFloat(downloadMatch[1]);
    ...
    if (Math.floor(progress) !== Math.floor(lastProgress) || progress === 100) {
      clearLine();
      let statusLine = `  ${createProgressBar(progress)} ${progress.toFixed(1)}%`;
      ...
      process.stdout.write(statusLine);
      lastProgress = progress;
    }
  }\<close>
\<close>

definition progress_rule :: "classifier \<Rightarrow> string \<Rightarrow> run" where
  "progress_rule st line =
     (case downloadMatch line of
        None \<Rightarrow> ([], Inr st)
      | Some tok \<Rightarrow>
          (let st1 = st\<lparr>isDownloading := True\<rparr>;
               progress = parseFloat tok
           in if \<not> strict_eq (math_floor progress) (math_floor (lastProgress st1))
                 \<or> strict_eq progress (Num 100)
              then (case createProgressBar progress 40 of
                      Inl e \<Rightarrow> ([], Inl e)
                    | Inr bar \<Rightarrow>
                        ([Downloading bar progress (speedMatch line) (eta_shown line)
                            (sizeMatch line)],
                         Inr (st1\<lparr>lastProgress := progress\<rparr>)))
              else ([], Inr st1)))"

text \<open>
  The five \<^verbatim>\<open>if\<close> statements that follow it, none of which is an \<^verbatim>\<open>else\<close>
  branch of another:
  \<^verbatim>\<open>
  if (line.includes("[download] Destination:") && !isDownloading) { ... }
  if (line.includes("[download] 100%") || line.includes("has already been downloaded")) {
    if (!isMerging) { ... }
  }
  if (line.includes("[Merger]") || line.includes("[ffmpeg]")) {
    if (!isMerging) { ...; isMerging = true; }
  }
  if (line.includes("Deleting original file")) { ... }
  if (line.includes("[EmbedThumbnail]") || line.includes("[Metadata]")) { ... }\<close>
\<close>

definition destination_rule :: "classifier \<Rightarrow> string \<Rightarrow> event list" where
  "destination_rule st line =
     (if includes_str line ''[download] Destination:'' \<and> \<not> isDownloading st
      then [DownloadInitialized] else [])"

definition completed_line :: "string \<Rightarrow> bool" where
  "completed_line line =
     (includes_str line ''[download] 100%'' \<or> includes_str line ''has already been downloaded'')"

definition completed_rule :: "classifier \<Rightarrow> string \<Rightarrow> event list" where
  "completed_rule st line =
     (if completed_line line \<and> \<not> isMerging st then [DownloadCompleted] else [])"

definition merger_line :: "string \<Rightarrow> bool" where
  "merger_line line = (includes_str line ''[Merger]'' \<or> includes_str line ''[ffmpeg]'')"

definition merger_rule :: "classifier \<Rightarrow> string \<Rightarrow> event list" where
  "merger_rule st line = (if merger_line line \<and> \<not> isMerging st then [Merging] else [])"

definition cleanup_rule :: "string \<Rightarrow> event list" where
  "cleanup_rule line = (if includes_str line ''Deleting original file'' then [CleaningUp] else [])"

definition metadata_line :: "string \<Rightarrow> bool" where
  "metadata_line line =
     (includes_str line ''[EmbedThumbnail]'' \<or> includes_str line ''[Metadata]'')"

definition metadata_rule :: "string \<Rightarrow> event list" where
  "metadata_rule line = (if metadata_line line then [EmbeddingMetadata] else [])"

definition later_rules :: "classifier \<Rightarrow> string \<Rightarrow> run" where
  "later_rules st line =
     (destination_rule st line @ completed_rule st line @ merger_rule st line @
      cleanup_rule line @ metadata_rule line,
      Inr (st\<lparr>isMerging := isMerging st \<or> merger_line line\<rparr>))"

text \<open>The body of \<^verbatim>\<open>for (const line of lines)\<close> for a line that is not blank.\<close>

definition handle_line :: "classifier \<Rightarrow> string \<Rightarrow> run" where
  "handle_line st line = and_then (progress_rule st line) (\<lambda>st1. later_rules st1 line)"

text \<open>The loop, with \<^verbatim>\<open>if (!line.trim()) continue;\<close>\<close>

definition blank :: "string \<Rightarrow> bool" where
  "blank line = list_all is_space line"

fun handle_lines :: "classifier \<Rightarrow> string list \<Rightarrow> run" where
  "handle_lines st [] = ([], Inr st)"
| "handle_lines st (line # lines) =
     (if blank line then handle_lines st lines
      else and_then (handle_line st line) (\<lambda>st'. handle_lines st' lines))"

text \<open>
  \<^verbatim>\<open>childProcess.stdout.on("data", (data) => { const output = data.toString();
  const lines = output.split("\n"); for (const line of lines) ... })\<close>:
  the handler of one chunk, and its calls on the chunks of a stream in their order.
\<close>

definition on_stdout_data :: "classifier \<Rightarrow> string \<Rightarrow> run" where
  "on_stdout_data st output = handle_lines st (split_newline output)"

fun feed :: "classifier \<Rightarrow> string list \<Rightarrow> run" where
  "feed st [] = ([], Inr st)"
| "feed st (chunk # chunks) = and_then (on_stdout_data st chunk) (\<lambda>st'. feed st' chunks)"

text \<open>What the claims read off a run: the percentages shown and the rule of each event.\<close>

fun event_percents :: "event list \<Rightarrow> number list" where
  "event_percents [] = []"
| "event_percents (Downloading bar p speed eta sz # evs) = p # event_percents evs"
| "event_percents (ev # evs) = event_percents evs"

fun is_downloading :: "event \<Rightarrow> bool" where
  "is_downloading (Downloading bar p speed eta sz) = True"
| "is_downloading ev = False"

fun rule_of :: "event \<Rightarrow> nat" where
  "rule_of (Downloading bar p speed eta sz) = 1"
| "rule_of DownloadInitialized = 2"
| "rule_of DownloadCompleted = 3"
| "rule_of Merging = 4"
| "rule_of CleaningUp = 5"
| "rule_of EmbeddingMetadata = 6"

text \<open>
  The lines a stream of chunks is cut into, and the percentages of those that match the
  download pattern.
\<close>

definition chunk_lines :: "string list \<Rightarrow> string list" where
  "chunk_lines chunks = filter (\<lambda>l. \<not> blank l) (concat (map split_newline chunks))"

definition line_percents :: "string list \<Rightarrow> number list" where
  "line_percents lines = map parseFloat (List.map_filter downloadMatch lines)"

text \<open>The order of two numbers by their integer floors (false when one is NaN).\<close>

fun num_le :: "number \<Rightarrow> number \<Rightarrow> bool" where
  "num_le NaN y = False"
| "num_le x NaN = False"
| "num_le NegInfinity y = True"
| "num_le x PosInfinity = True"
| "num_le (Num a) (Num b) = (a \<le> b)"
| "num_le x y = False"

definition floor_le :: "number \<Rightarrow> number \<Rightarrow> bool" where
  "floor_le x y = num_le (math_floor x) (math_floor y)"

text \<open>
  The forward order of the notices in an event sequence, from whether a merge and a
  percentage have been seen before it: a \<open>Merging\<close> or \<open>DownloadCompleted\<close> event
  is not preceded by a \<open>Merging\<close> event, a \<open>DownloadInitialized\<close> event is not
  preceded by a \<open>Downloading\<close> event.
\<close>

fun forward_only :: "bool \<Rightarrow> bool \<Rightarrow> event list \<Rightarrow> bool" where
  "forward_only m d [] = True"
| "forward_only m d (Merging # evs) = (\<not> m \<and> forward_only True d evs)"
| "forward_only m d (DownloadCompleted # evs) = (\<not> m \<and> forward_only m d evs)"
| "forward_only m d (DownloadInitialized # evs) = (\<not> d \<and> forward_only m d evs)"
| "forward_only m d (Downloading bar p speed eta sz # evs) = forward_only m True evs"
| "forward_only m d (ev # evs) = forward_only m d evs"

section \<open>The end of the subprocess\<close>

text \<open>
  \<^verbatim>\<open>
  childProcess.on("close", (code) => {
    if (code === 0 || code === 1) {
      if (code === 1 && isMerging) { printMessage("warning", `Download completed with warnings ...`); ... }
      else { printMessage("success", `All operations completed ...`); }
      ...
      if (code === 1) { ...; printMessage("info", "To enable video+audio merging, install ffmpeg:"); ... }
      resolve();
    } else {
      reject(new Error(`yt-dlp process exited with code ${code}`));
    }
  });\<close>
  The code is \<^verbatim>\<open>null\<close> (\<open>None\<close>) when a signal ended the subprocess. The handler
  resolves with what it has printed: the warning or the success, and after code 1 the
  advice to install ffmpeg, whether a merge was seen or not. Between the two it reports
  the file it finds in the file system, which is left out. Before the subprocess runs,
  the promise is rejected when the import of the package fails, when
  \<^verbatim>\<open>fs.existsSync(ytdlpPath)\<close> is false, and when \<^verbatim>\<open>spawn\<close> reports an error.
\<close>

datatype rejection =
    CouldNotFindExecutable
  | ExecutableNotFoundAt
  | SpawnError
  | ExitedWithCode "int option"

datatype notice = CompletedWithWarnings | AllOperationsCompleted | InstallFfmpegAdvice

definition on_close :: "classifier \<Rightarrow> int option \<Rightarrow> rejection + notice list" where
  "on_close st code =
     (if code = Some 0 \<or> code = Some 1 then
        Inr ((if code = Some 1 \<and> isMerging st then [CompletedWithWarnings]
              else [AllOperationsCompleted]) @
             (if code = Some 1 then [InstallFfmpegAdvice] else []))
      else Inl (ExitedWithCode code))"

definition degraded :: "notice list \<Rightarrow> bool" where
  "degraded notices = (CompletedWithWarnings \<in> set notices)"

record environment =
  import_ok :: bool
  executable_exists :: bool
  spawn_ok :: bool

datatype outcome = Rejected rejection | Resolved "notice list" | Uncaught js_error

definition downloadVideo :: "environment \<Rightarrow> string list \<Rightarrow> int option \<Rightarrow> outcome" where
  "downloadVideo env chunks code =
     (if \<not> import_ok env then Rejected CouldNotFindExecutable
      else if \<not> executable_exists env then Rejected ExecutableNotFoundAt
      else if \<not> spawn_ok env then Rejected SpawnError
      else case feed init chunks of
             (evs, Inl e) \<Rightarrow> Uncaught e
           | (evs, Inr st) \<Rightarrow>
               (case on_close st code of Inl r \<Rightarrow> Rejected r | Inr c \<Rightarrow> Resolved c))"

section \<open>The choice of the quality\<close>

text \<open>
  \<^verbatim>\<open>CONFIG.qualities\<close>, in the order of \<^verbatim>\<open>Object.keys\<close>: the integer keys ascending,
  then the others as written, which is the order of the source.
\<close>

record profile =
  format :: string
  label :: string

definition qualities :: "(string \<times> profile) list" where
  "qualities =
     [(''360'', \<lparr>format = ''bestvideo[height<=360]+bestaudio/best'', label = ''Low (360p)''\<rparr>),
      (''480'', \<lparr>format = ''bestvideo[height<=480]+bestaudio/best'', label = ''SD (480p)''\<rparr>),
      (''720'', \<lparr>format = ''bestvideo[height<=720]+bestaudio/best'', label = ''HD (720p)''\<rparr>),
      (''1080'', \<lparr>format = ''bestvideo[height<=1080]+bestaudio/best'', label = ''Full HD (1080p)''\<rparr>),
      (''1440'', \<lparr>format = ''bestvideo[height<=1440]+bestaudio/best'', label = ''2K (1440p)''\<rparr>),
      (''2160'', \<lparr>format = ''bestvideo[height<=2160]+bestaudio/best'', label = ''4K (2160p)''\<rparr>),
      (''audio'', \<lparr>format = ''bestaudio/best'', label = ''Audio Only (Best Quality)''\<rparr>),
      (''best'', \<lparr>format = ''bestvideo+bestaudio/best'', label = ''Best Available Quality''\<rparr>)]"

definition qualityKeys :: "string list" where
  "qualityKeys = map fst qualities"

text \<open>
  \<^verbatim>\<open>CONFIG.qualities[key]\<close>: an own property, or one that the object literal inherits
  from \<^verbatim>\<open>Object.prototype\<close> (truthy, without a \<^verbatim>\<open>format\<close>), or \<^verbatim>\<open>undefined\<close>.
\<close>

datatype property = Own profile | Inherited | Undefined

definition object_prototype_names :: "string list" where
  "object_prototype_names =
     [''constructor'', ''__defineGetter__'', ''__defineSetter__'', ''hasOwnProperty'',
      ''__lookupGetter__'', ''__lookupSetter__'', ''isPrototypeOf'', ''propertyIsEnumerable'',
      ''toString'', ''valueOf'', ''__proto__'', ''toLocaleString'']"

definition qualities_get :: "string \<Rightarrow> property" where
  "qualities_get key =
     (case map_of qualities key of
        Some p \<Rightarrow> Own p
      | None \<Rightarrow> if key \<in> set object_prototype_names then Inherited else Undefined)"

text \<open>\<^verbatim>\<open>String.prototype.toLowerCase\<close> on code units below 256.\<close>

definition lower_char :: "char \<Rightarrow> char" where
  "lower_char c =
     (let n = of_char c :: nat
      in if (65 \<le> n \<and> n \<le> 90) \<or> (192 \<le> n \<and> n \<le> 222 \<and> n \<noteq> 215)
         then char_of (n + 32) else c)"

definition toLowerCase :: "string \<Rightarrow> string" where
  "toLowerCase s = map lower_char s"

text \<open>
  \<^verbatim>\<open>parseInt(s)\<close>: blanks, a sign, \<^verbatim>\<open>0x\<close> for base 16, then the longest run of digits;
  \<open>None\<close> is NaN. The integer is exact; rounding a long one to a double does not move
  it across the small bounds it is compared with.
\<close>

definition hex_val :: "char \<Rightarrow> nat" where
  "hex_val c =
     (let n = of_char c :: nat
      in if 48 \<le> n \<and> n \<le> 57 then n - 48
         else if 97 \<le> n \<and> n \<le> 102 then n - 87
         else n - 55)"

definition is_hex_digit :: "char \<Rightarrow> bool" where
  "is_hex_digit c = (c \<in> set ''0123456789abcdefABCDEF'')"

definition parseInt :: "string \<Rightarrow> int option" where
  "parseInt s =
     (let t = dropWhile is_space s;
          neg = prefix ''-'' t;
          u = (if prefix ''-'' t \<or> prefix ''+'' t then drop 1 t else t);
          hex = (prefix ''0x'' u \<or> prefix ''0X'' u);
          ds = (if hex then takeWhile is_hex_digit (drop 2 u) else takeWhile is_digit u);
          v = (if hex then foldl (\<lambda>n c. 16 * n + int (hex_val c)) 0 ds else digits_value ds)
      in if ds = [] then None else Some (if neg then - v else v))"

text \<open>
  In \<^verbatim>\<open>main\<close>, with \<open>qualityInput\<close> the trimmed answer of the user; the result is the
  key passed on to \<^verbatim>\<open>downloadVideo\<close> and whether the warning was printed:
  \<^verbatim>\<open>
  let quality = qualityInput.toLowerCase() || "best";
  const qualityKeys = Object.keys(CONFIG.qualities);
  const qualityIndex = parseInt(qualityInput) - 1;
  if (qualityIndex >= 0 && qualityIndex < qualityKeys.length) {
    quality = qualityKeys[qualityIndex];
  }
  if (!CONFIG.qualities[quality]) {
    printMessage("warning", `Invalid quality "${quality}", using "best" instead`);
    quality = "best";
  }\<close>
\<close>

definition select_quality :: "string \<Rightarrow> string \<times> bool" where
  "select_quality qualityInput =
     (let quality = (if toLowerCase qualityInput = [] then ''best'' else toLowerCase qualityInput);
          quality' =
            (case parseInt qualityInput of
               None \<Rightarrow> quality
             | Some n \<Rightarrow>
                 if 0 \<le> n - 1 \<and> n - 1 < int (length qualityKeys)
                 then qualityKeys ! nat (n - 1) else quality)
      in if qualities_get quality' = Undefined then (''best'', True) else (quality', False))"

text \<open>
  In \<^verbatim>\<open>downloadVideo\<close>:
  \<^verbatim>\<open>const format = CONFIG.qualities[quality]?.format || CONFIG.qualities.best.format;\<close>
\<close>

definition format_for :: "string \<Rightarrow> string" where
  "format_for quality =
     (case qualities_get quality of
        Own p \<Rightarrow> if format p = [] then ''bestvideo+bestaudio/best'' else format p
      | _ \<Rightarrow> ''bestvideo+bestaudio/best'')"

section \<open>Properties of formatBytes\<close>

declare exact_index.simps [simp del]
declare ilog2.simps [simp del]
declare digits_of.simps [simp del]

text \<open>
  The exact index is the exponent of the largest power of 1024 that is at most \<open>n\<close>.
\<close>

lemma exact_index_ge: "1024 ^ k \<le> n \<Longrightarrow> k \<le> exact_index n"
proof (induction k arbitrary: n)
  case 0
  then show ?case by simp
next
  case (Suc k)
  have pos: "(1::nat) \<le> 1024 ^ k" by simp
  from Suc.prems have big: "1024 * 1024 ^ k \<le> n" by simp
  with pos have "1024 \<le> n" by linarith
  moreover from big have "(1024 * 1024 ^ k) div 1024 \<le> n div 1024" by (rule div_le_mono)
  then have "1024 ^ k \<le> n div 1024" by simp
  then have "k \<le> exact_index (n div 1024)" by (rule Suc.IH)
  ultimately show ?case by (subst exact_index.simps) simp
qed

lemma exact_index_bounds:
  "1 \<le> n \<Longrightarrow> 1024 ^ exact_index n \<le> n \<and> n < 1024 * 1024 ^ exact_index n"
proof (induction n rule: exact_index.induct)
  case (1 n)
  show ?case
  proof (cases "n < 1024")
    case True
    with "1.prems" show ?thesis by (subst (1 2) exact_index.simps) simp
  next
    case False
    then have "1 \<le> n div 1024" by (simp add: Suc_le_eq div_greater_zero_iff)
    with False "1.IH" have ih: "1024 ^ exact_index (n div 1024) \<le> n div 1024"
      "n div 1024 < 1024 * 1024 ^ exact_index (n div 1024)" by simp_all
    have ui: "exact_index n = Suc (exact_index (n div 1024))"
      using False by (subst exact_index.simps) simp
    from ih(1) have "1024 * 1024 ^ exact_index (n div 1024) \<le> 1024 * (n div 1024)" by simp
    also have "\<dots> \<le> n" by simp
    finally have lo: "1024 ^ exact_index n \<le> n" by (simp add: ui)
    from ih(2) have "n div 1024 + 1 \<le> 1024 * 1024 ^ exact_index (n div 1024)" by simp
    then have "1024 * (n div 1024 + 1) \<le> 1024 * (1024 * 1024 ^ exact_index (n div 1024))"
      by (rule mult_le_mono2)
    moreover have "n < 1024 * (n div 1024 + 1)"
      using dividend_less_times_div [of 1024 n] by simp
    ultimately have "n < 1024 * 1024 ^ exact_index n" by (simp add: ui)
    with lo show ?thesis by simp
  qed
qed

lemma exact_index_less: "1 \<le> n \<Longrightarrow> n < 1024 ^ k \<Longrightarrow> exact_index n < k"
proof -
  assume "1 \<le> n" and lt: "n < 1024 ^ k"
  then have "(1024::nat) ^ exact_index n \<le> n" using exact_index_bounds by blast
  with lt have "(1024::nat) ^ exact_index n < 1024 ^ k" by linarith
  then show ?thesis by (simp add: power_strict_increasing_iff)
qed

text \<open>The index in doubles is the exact one except at the three sizes below \<open>1024 ^ 5\<close>.\<close>

lemma unit_index_exact: "\<not> rounds_to_power n \<Longrightarrow> unit_index n = exact_index n"
  by (simp add: unit_index_def)

lemma not_rounds_to_power: "n + 3 < 1024 ^ 5 \<or> 1024 ^ 5 \<le> n \<Longrightarrow> \<not> rounds_to_power n"
  by (auto simp add: rounds_to_power_def)

lemma unit_index_ge: "1024 ^ 5 \<le> n \<Longrightarrow> 5 \<le> unit_index n"
proof -
  assume big: "1024 ^ 5 \<le> n"
  then have "unit_index n = exact_index n" by (simp add: unit_index_exact not_rounds_to_power)
  with exact_index_ge [OF big] show ?thesis by simp
qed

lemma unit_index_values:
  "unit_index 1536 = Suc 0" "unit_index 1073741824 = 3"
  "unit_index 1125899906842621 = 5" "unit_index 1125899906842624 = 5"
  by (simp_all add: unit_index_def rounds_to_power_def exact_index.simps)

text \<open>
  The rounding of \<open>toFixed2\<close> is to the nearest hundredth, and the text that
  \<open>number_text\<close> makes of it has no zero at the end of its decimals.
\<close>

lemma toFixed2_nearest:
  fixes x :: rat
  shows "\<bar>of_int \<lfloor>x * 100 + 1 / 2\<rfloor> / 100 - x\<bar> \<le> 1 / 200"
proof -
  define k where "k = \<lfloor>x * 100 + 1 / 2\<rfloor>"
  define y :: rat where "y = of_int k / 100"
  have "of_int k \<le> x * 100 + 1 / 2" and "x * 100 + 1 / 2 < of_int k + 1"
    unfolding k_def by linarith+
  moreover have "of_int k = y * 100" by (simp add: y_def)
  ultimately have "\<bar>y - x\<bar> \<le> 1 / 200" by linarith
  then show ?thesis by (simp only: y_def k_def)
qed

lemma digit_char_digit: "d < 10 \<Longrightarrow> is_digit (digit_char d)"
proof -
  assume "d < 10"
  then have "d \<in> {0, 1, 2, 3, 4, 5, 6, 7, 8, 9}" by auto
  then show ?thesis by (auto simp add: digit_char_def is_digit_def)
qed

lemma digit_char_zero: "d < 10 \<Longrightarrow> (digit_char d = CHR ''0'') = (d = 0)"
proof -
  assume "d < 10"
  then have "d \<in> {0, 1, 2, 3, 4, 5, 6, 7, 8, 9}" by auto
  then show ?thesis by (auto simp add: digit_char_def)
qed

lemma digits_of_digits: "c \<in> set (digits_of n) \<Longrightarrow> is_digit c"
proof (induction n rule: digits_of.induct)
  case (1 n)
  show ?case
  proof (cases "n < 10")
    case True
    with "1.prems" show ?thesis by (subst (asm) digits_of.simps) (simp add: digit_char_digit)
  next
    case False
    with "1.prems" have "c \<in> set (digits_of (n div 10)) \<or> c = digit_char (n mod 10)"
      by (subst (asm) digits_of.simps) auto
    with False "1.IH" show ?thesis by (auto simp add: digit_char_digit)
  qed
qed

text \<open>
  The text of a scaled value: its integer part, then the two decimals of the rounded
  value without the zeros at their end, and no point when both are zero.
\<close>

lemma number_text_toFixed2:
  "number_text (toFixed2 x) =
     (let n = nat \<lfloor>x * 100 + 1 / 2\<rfloor>; a = n mod 100 div 10; b = n mod 10
      in digits_of (n div 100) @
         (if b \<noteq> 0 then [CHR ''.'', digit_char a, digit_char b]
          else if a \<noteq> 0 then [CHR ''.'', digit_char a] else []))"
proof -
  define n where "n = nat \<lfloor>x * 100 + 1 / 2\<rfloor>"
  define a where "a = n mod 100 div 10"
  define b where "b = n mod 10"
  have a: "a < 10" and b: "b < 10" by (simp_all add: a_def b_def div_less_iff_less_mult)
  have dot: "\<not> is_digit CHR ''.''" by (simp add: is_digit_def)
  have tf: "toFixed2 x = digits_of (n div 100) @ CHR ''.'' # [digit_char a, digit_char b]"
    by (simp add: toFixed2_def n_def a_def b_def Let_def)
  have ip: "takeWhile is_digit (toFixed2 x) = digits_of (n div 100)"
    unfolding tf using dot by (simp add: digits_of_digits)
  have rest: "dropWhile is_digit (toFixed2 x) = CHR ''.'' # [digit_char a, digit_char b]"
    unfolding tf using dot by (simp add: digits_of_digits)
  show ?thesis
    unfolding number_text_def ip rest
    using a b by (simp add: Let_def digit_char_zero n_def [symmetric] a_def [symmetric] b_def [symmetric])
qed

lemma formatBytes_pos:
  "1 \<le> n \<Longrightarrow> formatBytes n =
     number_text (toFixed2 (of_nat n / 1024 ^ unit_index n)) @ '' '' @
       (case sizes_at (unit_index n) of Some u \<Rightarrow> u | None \<Rightarrow> ''undefined'')"
  by (simp add: formatBytes_def Let_def)

text \<open>
  Claim C10. For every \<open>n\<close> of at least \<open>1024 ^ 5\<close>, \<open>formatBytes\<close> reads its table
  of units past the end: the index is at least the length of the table, the entry is
  \<^verbatim>\<open>undefined\<close>, and the string ends in the word \<^verbatim>\<open>undefined\<close> instead of a unit
  from Bytes to TB. Nothing clamps the index to TB.
\<close>

theorem formatBytes_beyond_TB:
  "1024 ^ 5 \<le> n \<Longrightarrow>
     length sizes \<le> unit_index n \<and> sizes_at (unit_index n) = None \<and>
     formatBytes n = number_text (toFixed2 (of_nat n / 1024 ^ unit_index n)) @ '' undefined'' \<and>
     suffix '' undefined'' (formatBytes n)"
proof -
  assume big: "1024 ^ 5 \<le> n"
  then have five: "5 \<le> unit_index n" by (rule unit_index_ge)
  then have len: "length sizes \<le> unit_index n" by (simp add: sizes_def)
  then have none: "sizes_at (unit_index n) = None" by (simp add: sizes_at_def)
  from big have "1 \<le> n" by simp
  then have eq: "formatBytes n =
      number_text (toFixed2 (of_nat n / 1024 ^ unit_index n)) @ '' undefined''"
    by (simp add: formatBytes_pos none)
  have "suffix '' undefined'' (formatBytes n)"
    unfolding eq by (rule suffix_appendI) simp
  with len none eq show ?thesis by simp
qed

text \<open>Claim C10 at \<open>n = 1024 ^ 5\<close>, the first size beyond TB.\<close>

theorem formatBytes_beyond_TB_witness:
  "(1024::nat) ^ 5 \<le> 1024 ^ 5 \<and> sizes_at (unit_index (1024 ^ 5)) = None \<and>
   suffix '' undefined'' (formatBytes (1024 ^ 5))"
proof -
  have h: "(1024::nat) ^ 5 \<le> 1024 ^ 5" by simp
  from formatBytes_beyond_TB [OF h] h show ?thesis by blast
qed

text \<open>
  The values at one petabyte, three bytes below it, and at the two sizes that the
  specification names.
\<close>

lemma formatBytes_PB: "formatBytes (1024 ^ 5) = ''1 undefined''"
proof -
  have i: "unit_index 1125899906842624 = 5" by (rule unit_index_values)
  have x: "toFixed2 1 = ''1.00''" by code_simp
  have t: "number_text ''1.00'' = ''1''" by code_simp
  have u: "sizes_at 5 = None" by code_simp
  show ?thesis by (simp add: formatBytes_def i x t u)
qed

lemma formatBytes_below_PB: "formatBytes 1125899906842621 = ''1 undefined''"
proof -
  have i: "unit_index 1125899906842621 = 5" by (rule unit_index_values)
  have "\<lfloor>(1125899906842621 / 1125899906842624 :: rat) * 100 + 1 / 2\<rfloor> = 100"
    by (rule floor_unique) simp_all
  then have n: "nat \<lfloor>(1125899906842621 / 1125899906842624 :: rat) * 100 + 1 / 2\<rfloor> = 100"
    by simp
  have d: "digits_of (Suc 0) = ''1''" by code_simp
  have x: "toFixed2 (1125899906842621 / 1125899906842624) = ''1.00''"
    unfolding toFixed2_def Let_def n by (simp add: d digit_char_def)
  have t: "number_text ''1.00'' = ''1''" by code_simp
  have u: "sizes_at 5 = None" by code_simp
  show ?thesis by (simp add: formatBytes_def i x t u)
qed

lemma formatBytes_1536: "formatBytes 1536 = ''1.5 KB''"
proof -
  have i: "unit_index 1536 = Suc 0" by (rule unit_index_values)
  have x: "toFixed2 (3 / 2) = ''1.50''" by code_simp
  have t: "number_text ''1.50'' = ''1.5''" by code_simp
  have u: "sizes_at (Suc 0) = Some ''KB''" by code_simp
  show ?thesis by (simp add: formatBytes_def i x t u)
qed

lemma formatBytes_GB: "formatBytes 1073741824 = ''1 GB''"
proof -
  have i: "unit_index 1073741824 = 3" by (rule unit_index_values)
  have x: "toFixed2 1 = ''1.00''" by code_simp
  have t: "number_text ''1.00'' = ''1''" by code_simp
  have u: "sizes_at 3 = Some ''GB''" by code_simp
  show ?thesis by (simp add: formatBytes_def i x t u)
qed

text \<open>
  Claim C8 as stated, for every \<open>n \<ge> 1\<close>, fails at \<open>n = 1024 ^ 5\<close>: the result is
  \<^verbatim>\<open>1 undefined\<close>, and \<^verbatim>\<open>undefined\<close> is not among the units Bytes, KB, MB, GB, TB.
  It fails in the same way three bytes below, at \<open>1024 ^ 5 - 3 = 1125899906842621\<close>,
  where the quotient of the rounded logarithms is 5 already.
\<close>

theorem formatBytes_unit_counterexample:
  "(1::nat) \<le> 1024 ^ 5 \<and> formatBytes (1024 ^ 5) = ''1 undefined'' \<and>
   (1::nat) \<le> 1125899906842621 \<and> (1125899906842621::nat) < 1024 ^ 5 \<and>
   formatBytes 1125899906842621 = ''1 undefined'' \<and> ''undefined'' \<notin> set sizes"
proof -
  have "''undefined'' \<notin> set sizes" by (simp add: sizes_def)
  with formatBytes_PB formatBytes_below_PB show ?thesis by simp
qed

text \<open>
  Claim C8, amended. \<open>formatBytes 0\<close> is \<^verbatim>\<open>0 Bytes\<close>. For every \<open>n\<close> from 1 to below
  \<open>1024 ^ 5 - 3\<close> the unit is one of Bytes, KB, MB, GB, TB, namely the one that scales
  \<open>n\<close> into the range from 1 to below 1024. The result is the scaled value \<open>x\<close> rounded to
  the nearest hundredth \<open>h / 100\<close>, printed as the integer part and the decimals that
  are left when the zeros at their end are dropped, then a blank and the unit. In
  particular \<open>formatBytes 1536\<close> is \<^verbatim>\<open>1.5 KB\<close> and \<open>formatBytes 1073741824\<close> is \<^verbatim>\<open>1 GB\<close>.
\<close>

theorem formatBytes_units:
  "formatBytes 0 = ''0 Bytes'' \<and>
   (1 \<le> n \<and> n + 3 < 1024 ^ 5 \<longrightarrow>
      unit_index n < length sizes \<and>
      1024 ^ unit_index n \<le> n \<and> n < 1024 * 1024 ^ unit_index n \<and>
      (let x = of_nat n / 1024 ^ unit_index n :: rat;
           h = nat \<lfloor>x * 100 + 1 / 2\<rfloor>; a = h mod 100 div 10; b = h mod 10
       in \<bar>of_nat h / 100 - x\<bar> \<le> 1 / 200 \<and>
          formatBytes n =
            digits_of (h div 100) @
            (if b \<noteq> 0 then [CHR ''.'', digit_char a, digit_char b]
             else if a \<noteq> 0 then [CHR ''.'', digit_char a] else []) @
            '' '' @ sizes ! unit_index n)) \<and>
   formatBytes 1536 = ''1.5 KB'' \<and> formatBytes 1073741824 = ''1 GB''"
proof -
  have zero: "formatBytes 0 = ''0 Bytes''" by (simp add: formatBytes_def)
  have mid: "unit_index n < length sizes \<and>
      1024 ^ unit_index n \<le> n \<and> n < 1024 * 1024 ^ unit_index n \<and>
      (let x = of_nat n / 1024 ^ unit_index n :: rat;
           h = nat \<lfloor>x * 100 + 1 / 2\<rfloor>; a = h mod 100 div 10; b = h mod 10
       in \<bar>of_nat h / 100 - x\<bar> \<le> 1 / 200 \<and>
          formatBytes n =
            digits_of (h div 100) @
            (if b \<noteq> 0 then [CHR ''.'', digit_char a, digit_char b]
             else if a \<noteq> 0 then [CHR ''.'', digit_char a] else []) @
            '' '' @ sizes ! unit_index n)"
    if "1 \<le> n" "n + 3 < 1024 ^ 5"
  proof -
    from that(2) have exact: "unit_index n = exact_index n"
      by (simp add: unit_index_exact not_rounds_to_power)
    from that(2) have below: "n < 1024 ^ 5" by simp
    define x :: rat where "x = of_nat n / 1024 ^ unit_index n"
    define h where "h = nat \<lfloor>x * 100 + 1 / 2\<rfloor>"
    define a where "a = h mod 100 div 10"
    define b where "b = h mod 10"
    from that(1) below have "unit_index n < 5" unfolding exact by (rule exact_index_less)
    then have len: "unit_index n < length sizes" by (simp add: sizes_def)
    then have "sizes_at (unit_index n) = Some (sizes ! unit_index n)" by (simp add: sizes_at_def)
    with that(1) have "formatBytes n = number_text (toFixed2 x) @ '' '' @ sizes ! unit_index n"
      by (simp add: formatBytes_pos x_def)
    then have shape: "formatBytes n =
        digits_of (h div 100) @
        (if b \<noteq> 0 then [CHR ''.'', digit_char a, digit_char b]
         else if a \<noteq> 0 then [CHR ''.'', digit_char a] else []) @
        '' '' @ sizes ! unit_index n"
      by (simp add: number_text_toFixed2 Let_def h_def a_def b_def)
    have "0 \<le> x" by (simp add: x_def)
    then have "0 \<le> \<lfloor>x * 100 + 1 / 2\<rfloor>" by simp
    then have "(of_nat h :: rat) = of_int \<lfloor>x * 100 + 1 / 2\<rfloor>" by (simp add: h_def)
    with toFixed2_nearest [of x] have near: "\<bar>of_nat h / 100 - x\<bar> \<le> 1 / 200" by simp
    from len exact_index_bounds [OF that(1), folded exact] near shape show ?thesis
      unfolding Let_def x_def [symmetric] h_def [symmetric] a_def [symmetric] b_def [symmetric]
      by blast
  qed
  from zero mid formatBytes_1536 formatBytes_GB show ?thesis by blast
qed

text \<open>Claim C8, amended, at \<open>n = 1536\<close>.\<close>

theorem formatBytes_units_witness:
  "(1::nat) \<le> 1536 \<and> (1536::nat) + 3 < 1024 ^ 5 \<and> unit_index 1536 < length sizes \<and>
   1024 ^ unit_index 1536 \<le> (1536::nat) \<and> formatBytes 1536 = ''1.5 KB''"
proof -
  have h: "(1::nat) \<le> 1536 \<and> (1536::nat) + 3 < 1024 ^ 5" by simp
  from formatBytes_units [of 1536] h show ?thesis by blast
qed

section \<open>Properties of createProgressBar\<close>

text \<open>
  Rounding to a double, at one tenth; and the bars of the examples of the specification.
\<close>

lemma fl_tenth: "fl (1 / 10) = Num (3602879701896397 / 2 ^ 55)"
  by code_simp

lemma createProgressBar_examples:
  "createProgressBar (Num 50) 10 = Inr (5, 5)"
  "createProgressBar (Num 0) 10 = Inr (0, 10)"
  "createProgressBar (Num 100) 10 = Inr (10, 0)"
  by code_simp+

text \<open>
  Claim C7 says that no percentage makes a repeat count negative. At 150 percent of the
  default width the filled count is 60 and the empty count is \<open>- 20\<close>, which
  \<^verbatim>\<open>repeat\<close> refuses: the call throws a RangeError.
\<close>

theorem createProgressBar_raises: "createProgressBar (Num 150) 40 = Inl RangeError"
  by code_simp

section \<open>Properties of the handler: runs and chunks\<close>

lemma run_cases:
  obtains (raised) evs e where "r = (evs, Inl e)" | (went_on) evs st where "r = (evs, Inr st)"
  by (cases r; case_tac b) auto

lemma and_then_Inl [simp]: "and_then (evs, Inl e) f = (evs, Inl e)"
  by (simp add: and_then_def)

lemma and_then_Inr [simp]: "and_then (evs, Inr st) f = (evs @ fst (f st), snd (f st))"
  by (simp add: and_then_def split: prod.splits)

lemma and_then_assoc: "and_then (and_then r f) g = and_then r (\<lambda>st. and_then (f st) g)"
proof (cases r rule: run_cases)
  case (raised evs e)
  then show ?thesis by simp
next
  case (went_on evs st)
  show ?thesis
  proof (cases "f st" rule: run_cases)
    case (raised evs' e)
    with went_on show ?thesis by simp
  next
    case inner: (went_on evs' st')
    with went_on show ?thesis by simp
  qed
qed

lemma handle_lines_append:
  "handle_lines st (xs @ ys) = and_then (handle_lines st xs) (\<lambda>st'. handle_lines st' ys)"
proof (induction xs arbitrary: st)
  case Nil
  show ?case by simp
next
  case (Cons x xs)
  show ?case
  proof (cases "blank x")
    case True
    with Cons show ?thesis by simp
  next
    case False
    then show ?thesis by (simp add: Cons and_then_assoc)
  qed
qed

lemma handle_lines_skip_blank:
  "handle_lines st (filter (\<lambda>l. \<not> blank l) ls) = handle_lines st ls"
  by (induction ls arbitrary: st) simp_all

lemma feed_lines: "feed st chunks = handle_lines st (concat (map split_newline chunks))"
proof (induction chunks arbitrary: st)
  case Nil
  show ?case by simp
next
  case (Cons c cs)
  then show ?case by (simp add: on_stdout_data_def handle_lines_append)
qed

lemma feed_chunk_lines: "feed st chunks = handle_lines st (chunk_lines chunks)"
  by (simp add: feed_lines chunk_lines_def handle_lines_skip_blank)

subsection \<open>Splitting at newlines\<close>

lemma split_newline_not_Nil [simp]: "split_newline s \<noteq> []"
  by (induction s) (auto split: list.splits)

lemma split_newline_append:
  "split_newline (a @ CHR 0x0A # b) = split_newline a @ split_newline b"
proof (induction a)
  case Nil
  show ?case by (simp split: list.splits)
next
  case (Cons c a)
  obtain p ps where "split_newline a = p # ps"
    using split_newline_not_Nil [of a] by (cases "split_newline a") auto
  with Cons show ?case by (simp split: list.splits)
qed

lemma split_newline_Nil: "split_newline [] = [[]]"
  by simp

lemma chunk_lines_append:
  "chunk_lines (xs @ ys) = chunk_lines xs @ chunk_lines ys"
  by (simp add: chunk_lines_def)

lemma chunk_lines_cut:
  "chunk_lines [a @ CHR 0x0A # b] = chunk_lines [a @ [CHR 0x0A], b]"
  "chunk_lines [a @ CHR 0x0A # b] = chunk_lines [a, CHR 0x0A # b]"
proof -
  have "split_newline (a @ [CHR 0x0A]) = split_newline a @ [[]]"
    using split_newline_append [of a "[]"] by simp
  then show "chunk_lines [a @ CHR 0x0A # b] = chunk_lines [a @ [CHR 0x0A], b]"
    by (simp add: chunk_lines_def split_newline_append blank_def)
  have "split_newline (CHR 0x0A # b) = [] # split_newline b"
    using split_newline_append [of "[]" b] by simp
  then show "chunk_lines [a @ CHR 0x0A # b] = chunk_lines [a, CHR 0x0A # b]"
    by (simp add: chunk_lines_def split_newline_append blank_def)
qed

text \<open>
  Claim C1, amended. A chunk is cut at its newlines and every piece that is not blank
  is classified as a line, with no buffer between chunks. The run of a stream, events
  and outcome, is therefore the same when a chunk is cut in two next to a newline,
  after it or before it; a cut inside a line is not covered.
\<close>

theorem rechunk_at_newline:
  "feed st (before @ [a @ CHR 0x0A # b] @ rest) = feed st (before @ [a @ [CHR 0x0A], b] @ rest) \<and>
   feed st (before @ [a @ CHR 0x0A # b] @ rest) = feed st (before @ [a, CHR 0x0A # b] @ rest)"
proof -
  have "chunk_lines (before @ [a @ CHR 0x0A # b] @ rest) =
        chunk_lines (before @ [a @ [CHR 0x0A], b] @ rest)"
    using chunk_lines_cut(1) [of a b] by (simp only: chunk_lines_append)
  moreover have "chunk_lines (before @ [a @ CHR 0x0A # b] @ rest) =
        chunk_lines (before @ [a, CHR 0x0A # b] @ rest)"
    using chunk_lines_cut(2) [of a b] by (simp only: chunk_lines_append)
  ultimately show ?thesis by (simp only: feed_chunk_lines)
qed

text \<open>Claim C1, amended, on a chunk of two lines cut after its newline.\<close>

theorem rechunk_at_newline_witness:
  "feed init [''[download] 50%\<newline>[Merger] x''] = feed init [''[download] 50%\<newline>'', ''[Merger] x'']"
  using rechunk_at_newline [of init "[]" "''[download] 50%''" "''[Merger] x''" "[]"] by simp

text \<open>
  Claim C1 as stated fails: nothing is kept from one chunk to the next. The line
  \<^verbatim>\<open>[download] 50%\<close> in one chunk gives a Downloading event; cut after \<^verbatim>\<open>[downl\<close>
  it gives none, because each of the two pieces is classified as a line of its own.
\<close>

theorem rechunk_mid_line_counterexample:
  "fst (feed init [''[download] 50%\<newline>'']) \<noteq> fst (feed init [''[downl'', ''oad] 50%\<newline>''])"
proof -
  have "fst (feed init [''[download] 50%\<newline>'']) = [Downloading (20, 20) (Num 50) None None None]"
    by code_simp
  moreover have "fst (feed init [''[downl'', ''oad] 50%\<newline>'']) = []"
    by code_simp
  ultimately show ?thesis by simp
qed

section \<open>Properties of the handler: one line\<close>

lemma event_percents_append [simp]:
  "event_percents (xs @ ys) = event_percents xs @ event_percents ys"
  by (induction xs rule: event_percents.induct) simp_all

lemma snd_later_rules [simp]:
  "snd (later_rules st l) = Inr (st\<lparr>isMerging := isMerging st \<or> merger_line l\<rparr>)"
  by (simp add: later_rules_def)

lemma later_rules_percents [simp]: "event_percents (fst (later_rules st l)) = []"
  by (simp add: later_rules_def destination_rule_def completed_rule_def merger_rule_def
      cleanup_rule_def metadata_rule_def)

lemma bar_100: "createProgressBar (Num 100) 40 = Inr (40, 0)"
  by code_simp

text \<open>The four ways in which the first rule ends.\<close>

lemma progress_rule_cases:
  obtains
    (no_match) "downloadMatch l = None" "progress_rule st l = ([], Inr st)"
  | (same_floor) tok where "downloadMatch l = Some tok"
      "strict_eq (math_floor (parseFloat tok)) (math_floor (lastProgress st))"
      "\<not> strict_eq (parseFloat tok) (Num 100)"
      "progress_rule st l = ([], Inr (st\<lparr>isDownloading := True\<rparr>))"
  | (raised) tok e where "downloadMatch l = Some tok"
      "\<not> strict_eq (math_floor (parseFloat tok)) (math_floor (lastProgress st))
       \<or> strict_eq (parseFloat tok) (Num 100)"
      "createProgressBar (parseFloat tok) 40 = Inl e"
      "progress_rule st l = ([], Inl e)"
  | (shown) tok bar where "downloadMatch l = Some tok"
      "\<not> strict_eq (math_floor (parseFloat tok)) (math_floor (lastProgress st))
       \<or> strict_eq (parseFloat tok) (Num 100)"
      "createProgressBar (parseFloat tok) 40 = Inr bar"
      "progress_rule st l =
         ([Downloading bar (parseFloat tok) (speedMatch l) (eta_shown l) (sizeMatch l)],
          Inr (st\<lparr>isDownloading := True, lastProgress := parseFloat tok\<rparr>))"
proof (cases "downloadMatch l")
  case None
  then show ?thesis by (intro no_match) (simp_all add: progress_rule_def Let_def)
next
  case (Some tok)
  show ?thesis
  proof (cases "\<not> strict_eq (math_floor (parseFloat tok)) (math_floor (lastProgress st))
       \<or> strict_eq (parseFloat tok) (Num 100)")
    case False
    with Some show ?thesis by (intro same_floor [of tok]) (simp_all add: progress_rule_def Let_def)
  next
    case True
    show ?thesis
    proof (cases "createProgressBar (parseFloat tok) 40")
      case (Inl e)
      with Some True show ?thesis
        by (intro raised [of tok e]) (auto simp add: progress_rule_def Let_def)
    next
      case (Inr bar)
      with Some True show ?thesis
        by (intro shown [of tok bar]) (auto simp add: progress_rule_def Let_def)
    qed
  qed
qed

lemma handle_line_percents_None:
  "downloadMatch l = None \<Longrightarrow> event_percents (fst (handle_line st l)) = []"
  by (cases l st rule: progress_rule_cases) (simp_all add: handle_line_def)

lemma handle_line_percents_Some:
  "downloadMatch l = Some tok \<Longrightarrow>
     event_percents (fst (handle_line st l)) = [] \<or>
     event_percents (fst (handle_line st l)) = [parseFloat tok]"
  by (cases l st rule: progress_rule_cases) (simp_all add: handle_line_def)

lemma handle_line_percents_100:
  "downloadMatch l = Some tok \<Longrightarrow> parseFloat tok = Num 100 \<Longrightarrow>
     event_percents (fst (handle_line st l)) = [Num 100] \<and> (\<exists>st'. snd (handle_line st l) = Inr st')"
  by (cases l st rule: progress_rule_cases)
     (simp_all add: handle_line_def strict_eq_def bar_100)

section \<open>Properties of the handler: percentages of a run\<close>

lemma fst_and_then:
  "fst (and_then r f) = fst r @ (case snd r of Inl e \<Rightarrow> [] | Inr st \<Rightarrow> fst (f st))"
  by (cases r rule: run_cases) simp_all

lemma snd_and_then:
  "snd (and_then r f) = (case snd r of Inl e \<Rightarrow> Inl e | Inr st \<Rightarrow> snd (f st))"
  by (cases r rule: run_cases) simp_all

lemma sorted_wrt_subseq: "subseq xs ys \<Longrightarrow> sorted_wrt P ys \<Longrightarrow> sorted_wrt P xs"
proof (induction rule: list_emb.induct)
  case (list_emb_Nil ys)
  show ?case by simp
next
  case (list_emb_Cons xs ys y)
  then show ?case by simp
next
  case (list_emb_Cons2 x y xs ys)
  then have "set xs \<subseteq> set ys" by (auto dest: list_emb_set)
  with list_emb_Cons2 show ?case by auto
qed

lemma line_percents_Cons:
  "line_percents (l # ls) =
     (case downloadMatch l of None \<Rightarrow> [] | Some tok \<Rightarrow> [parseFloat tok]) @ line_percents ls"
  by (simp add: line_percents_def split: option.splits)

lemma handle_lines_percents_subseq:
  "subseq (event_percents (fst (handle_lines st ls))) (line_percents ls)"
proof (induction ls arbitrary: st)
  case Nil
  show ?case by simp
next
  case (Cons l ls)
  have skip: "subseq (event_percents (fst (handle_lines st ls))) (line_percents (l # ls))"
    using Cons [of st] by (auto simp add: line_percents_Cons split: option.splits)
  show ?case
  proof (cases "blank l")
    case True
    with skip show ?thesis by simp
  next
    case False
    have tail: "subseq
        (event_percents (case snd (handle_line st l) of Inl e \<Rightarrow> [] | Inr st' \<Rightarrow> fst (handle_lines st' ls)))
        (line_percents ls)"
      using Cons by (cases "snd (handle_line st l)") simp_all
    show ?thesis
    proof (cases "downloadMatch l")
      case None
      with False tail show ?thesis
        by (simp add: fst_and_then line_percents_Cons handle_line_percents_None)
    next
      case (Some tok)
      with handle_line_percents_Some [of l tok st] False tail show ?thesis
        by (auto simp add: fst_and_then line_percents_Cons)
    qed
  qed
qed

lemma handle_line_count_100:
  assumes "snd (handle_line st l) = Inr st'"
  shows "filter (\<lambda>p. p = Num 100) (event_percents (fst (handle_line st l))) =
         filter (\<lambda>p. p = Num 100) (line_percents [l])"
proof (cases "downloadMatch l")
  case None
  then show ?thesis by (simp add: line_percents_Cons handle_line_percents_None line_percents_def)
next
  case (Some tok)
  show ?thesis
  proof (cases "parseFloat tok = Num 100")
    case True
    with Some handle_line_percents_100 [of l tok st] show ?thesis
      by (simp add: line_percents_def)
  next
    case False
    with Some handle_line_percents_Some [of l tok st] show ?thesis
      by (auto simp add: line_percents_def)
  qed
qed

lemma handle_lines_count_100:
  "list_all (\<lambda>l. \<not> blank l) ls \<Longrightarrow> snd (handle_lines st ls) = Inr st' \<Longrightarrow>
     filter (\<lambda>p. p = Num 100) (event_percents (fst (handle_lines st ls))) =
     filter (\<lambda>p. p = Num 100) (line_percents ls)"
proof (induction ls arbitrary: st)
  case Nil
  show ?case by (simp add: line_percents_def)
next
  case (Cons l ls)
  from Cons.prems have nb: "\<not> blank l" and rest: "list_all (\<lambda>l. \<not> blank l) ls" by simp_all
  from Cons.prems(2) nb obtain st1 where
    one: "snd (handle_line st l) = Inr st1" and more: "snd (handle_lines st1 ls) = Inr st'"
    by (cases "snd (handle_line st l)") (simp_all add: snd_and_then)
  have "line_percents (l # ls) = line_percents [l] @ line_percents ls"
    by (simp add: line_percents_def map_filter_def)
  with nb one handle_line_count_100 [OF one] Cons.IH [OF rest more] show ?case
    by (simp add: fst_and_then)
qed

lemma chunk_lines_not_blank: "list_all (\<lambda>l. \<not> blank l) (chunk_lines chunks)"
  by (simp add: chunk_lines_def list_all_iff)

text \<open>
  Claim C2, amended. For every stream of chunks, the percentages of the Downloading
  events are, in their order, a subsequence of the percentages of the lines the handler
  sees (the pieces of each chunk between newlines). So their integer floors never go
  down when those of the lines never do. In a run that raises no exception every line
  of 100 percent is shown: as many events have the percentage 100 as lines have, one
  when one line has.
\<close>

theorem emitted_percents:
  "subseq (event_percents (fst (feed st chunks))) (line_percents (chunk_lines chunks)) \<and>
   (sorted_wrt floor_le (line_percents (chunk_lines chunks)) \<longrightarrow>
      sorted_wrt floor_le (event_percents (fst (feed st chunks)))) \<and>
   (\<forall>st'. snd (feed st chunks) = Inr st' \<longrightarrow>
      length (filter (\<lambda>p. p = Num 100) (event_percents (fst (feed st chunks)))) =
      length (filter (\<lambda>p. p = Num 100) (line_percents (chunk_lines chunks))))"
proof -
  have sub: "subseq (event_percents (fst (feed st chunks))) (line_percents (chunk_lines chunks))"
    by (simp only: feed_chunk_lines handle_lines_percents_subseq)
  have "filter (\<lambda>p. p = Num 100) (event_percents (fst (feed st chunks))) =
      filter (\<lambda>p. p = Num 100) (line_percents (chunk_lines chunks))"
    if "snd (feed st chunks) = Inr st'" for st'
    using that handle_lines_count_100 [OF chunk_lines_not_blank, of st chunks st']
    by (simp only: feed_chunk_lines)
  with sub sorted_wrt_subseq [OF sub] show ?thesis by auto
qed

text \<open>Claim C2, amended, on the lines 50% and 100% in two chunks.\<close>

theorem emitted_percents_witness:
  "sorted_wrt floor_le (line_percents (chunk_lines [''[download] 50%\<newline>'', ''[download] 100%\<newline>''])) \<and>
   snd (feed init [''[download] 50%\<newline>'', ''[download] 100%\<newline>'']) =
     Inr \<lparr>lastProgress = Num 100, isDownloading = True, isMerging = False\<rparr> \<and>
   sorted_wrt floor_le (event_percents (fst (feed init [''[download] 50%\<newline>'', ''[download] 100%\<newline>'']))) \<and>
   length (filter (\<lambda>p. p = Num 100)
     (event_percents (fst (feed init [''[download] 50%\<newline>'', ''[download] 100%\<newline>''])))) = 1"
proof -
  have lp: "line_percents (chunk_lines [''[download] 50%\<newline>'', ''[download] 100%\<newline>'']) = [Num 50, Num 100]"
    by code_simp
  have srt: "sorted_wrt floor_le (line_percents (chunk_lines [''[download] 50%\<newline>'', ''[download] 100%\<newline>'']))"
    unfolding lp by (simp add: floor_le_def)
  have cnt: "length (filter (\<lambda>p. p = Num 100)
      (line_percents (chunk_lines [''[download] 50%\<newline>'', ''[download] 100%\<newline>'']))) = 1"
    unfolding lp by simp
  have run: "snd (feed init [''[download] 50%\<newline>'', ''[download] 100%\<newline>'']) =
     Inr \<lparr>lastProgress = Num 100, isDownloading = True, isMerging = False\<rparr>"
    by code_simp
  from emitted_percents [of init "[''[download] 50%\<newline>'', ''[download] 100%\<newline>'']"] srt run cnt
  show ?thesis by metis
qed

text \<open>
  Claim C2 as stated fails on the lines 100%, 30%, 100% (a video stream, then the start
  and the end of an audio stream): the three percentages are all shown, so the floors go
  down from 100 to 30, and two events have the percentage 100.
\<close>

theorem emitted_percents_counterexample:
  "event_percents (fst (feed init [''[download] 100%\<newline>[download] 30%\<newline>[download] 100%\<newline>'']))
     = [Num 100, Num 30, Num 100] \<and> \<not> floor_le (Num 100) (Num 30)"
proof -
  have "event_percents (fst (feed init [''[download] 100%\<newline>[download] 30%\<newline>[download] 100%\<newline>'']))
     = [Num 100, Num 30, Num 100]"
    by code_simp
  moreover have "\<not> floor_le (Num 100) (Num 30)" by (simp add: floor_le_def)
  ultimately show ?thesis by simp
qed

section \<open>Properties of the handler: the rules on one line\<close>

lemmas later_defs = later_rules_def destination_rule_def completed_rule_def merger_rule_def
  cleanup_rule_def metadata_rule_def

lemma later_rules_sorted: "sorted_wrt (<) (map rule_of (fst (later_rules st l)))"
  by (simp add: later_defs)

lemma later_rules_after_first: "ev \<in> set (fst (later_rules st l)) \<Longrightarrow> 1 < rule_of ev"
  by (auto simp add: later_defs split: if_splits)

lemma handle_line_sorted: "sorted_wrt (<) (map rule_of (fst (handle_line st l)))"
  by (cases l st rule: progress_rule_cases)
     (auto simp add: handle_line_def later_rules_sorted dest: later_rules_after_first)

lemma handle_line_members:
  assumes "snd (handle_line st l) = Inr st'"
  shows "(DownloadInitialized \<in> set (fst (handle_line st l))) =
           (includes_str l ''[download] Destination:'' \<and> \<not> isDownloading st \<and> downloadMatch l = None)"
    and "(DownloadCompleted \<in> set (fst (handle_line st l))) = (completed_line l \<and> \<not> isMerging st)"
    and "(Merging \<in> set (fst (handle_line st l))) = (merger_line l \<and> \<not> isMerging st)"
    and "(CleaningUp \<in> set (fst (handle_line st l))) = includes_str l ''Deleting original file''"
    and "(EmbeddingMetadata \<in> set (fst (handle_line st l))) = metadata_line l"
    and "isMerging st' = (isMerging st \<or> merger_line l)"
    and "isDownloading st' = (isDownloading st \<or> downloadMatch l \<noteq> None)"
  using assms
  by (cases l st rule: progress_rule_cases; auto simp add: handle_line_def later_defs)+

lemma handle_line_downloading:
  assumes "snd (handle_line st l) = Inr st'"
  shows "list_ex is_downloading (fst (handle_line st l)) =
           (\<exists>tok. downloadMatch l = Some tok \<and>
              (\<not> strict_eq (math_floor (parseFloat tok)) (math_floor (lastProgress st)) \<or>
               strict_eq (parseFloat tok) (Num 100)))"
  using assms
  by (cases l st rule: progress_rule_cases) (auto simp add: handle_line_def later_defs)

text \<open>
  Claim C4, amended. On every line the six rules are tried in the stated order, each
  one whether or not an earlier one matched. The events of a line are in the order of
  their rules with at most one event for each rule, from none to six; and, when the
  first rule raises no exception, each later rule gives its event exactly when its own
  condition holds.
\<close>

theorem every_matching_rule_fires:
  "sorted_wrt (<) (map rule_of (fst (handle_line st l))) \<and>
   (snd (handle_line st l) = Inr st' \<longrightarrow>
      (DownloadInitialized \<in> set (fst (handle_line st l))) =
        (includes_str l ''[download] Destination:'' \<and> \<not> isDownloading st \<and> downloadMatch l = None) \<and>
      (DownloadCompleted \<in> set (fst (handle_line st l))) = (completed_line l \<and> \<not> isMerging st) \<and>
      (Merging \<in> set (fst (handle_line st l))) = (merger_line l \<and> \<not> isMerging st) \<and>
      (CleaningUp \<in> set (fst (handle_line st l))) = includes_str l ''Deleting original file'' \<and>
      (EmbeddingMetadata \<in> set (fst (handle_line st l))) = metadata_line l)"
  using handle_line_sorted [of st l] handle_line_members(1-5) [of st l st'] by blast

text \<open>Claim C4, amended, on the line \<^verbatim>\<open>[download] 100%\<close>.\<close>

theorem every_matching_rule_fires_witness:
  "snd (handle_line init ''[download] 100%'') =
     Inr \<lparr>lastProgress = Num 100, isDownloading = True, isMerging = False\<rparr> \<and>
   sorted_wrt (<) (map rule_of (fst (handle_line init ''[download] 100%''))) \<and>
   (DownloadCompleted \<in> set (fst (handle_line init ''[download] 100%''))) =
     (completed_line ''[download] 100%'' \<and> \<not> isMerging init)"
proof -
  have run: "snd (handle_line init ''[download] 100%'') =
     Inr \<lparr>lastProgress = Num 100, isDownloading = True, isMerging = False\<rparr>"
    by code_simp
  from every_matching_rule_fires [of init "''[download] 100%''"] run show ?thesis by blast
qed

text \<open>
  Claim C4 as stated fails: the line \<^verbatim>\<open>[download] 100%\<close> gives two events, the status
  line of the first rule and the completion notice of the third.
\<close>

theorem first_match_counterexample:
  "fst (handle_line init ''[download] 100%'') =
     [Downloading (40, 0) (Num 100) None None None, DownloadCompleted]"
  by code_simp

text \<open>
  Claim C3 says that a line matching the download pattern gives a Downloading event
  whenever the floor of its percentage differs from the floor of the last one shown.
  The line \<^verbatim>\<open>[download] 150%\<close> matches, and 150 differs from the initial \<open>- 1\<close>;
  but the status line is built with \<open>createProgressBar\<close>, which throws at 150, so
  nothing is written. Lemma \<open>handle_line_downloading\<close> above is the claim for the lines
  on which no exception is raised.
\<close>

theorem progress_line_raises:
  "downloadMatch ''[download] 150%'' = Some ''150'' \<and>
   \<not> strict_eq (math_floor (parseFloat ''150'')) (math_floor (lastProgress init)) \<and>
   handle_line init ''[download] 150%'' = ([], Inl RangeError)"
proof -
  have "downloadMatch ''[download] 150%'' = Some ''150''" by code_simp
  moreover have "\<not> strict_eq (math_floor (parseFloat ''150'')) (math_floor (lastProgress init))"
    by code_simp
  moreover have "handle_line init ''[download] 150%'' = ([], Inl RangeError)" by code_simp
  ultimately show ?thesis by simp
qed

section \<open>Properties of the handler: forward order of a run\<close>

lemma forward_only_append:
  "forward_only m d (xs @ ys) =
     (forward_only m d xs \<and>
      forward_only (m \<or> Merging \<in> set xs) (d \<or> list_ex is_downloading xs) ys)"
  by (induction m d xs rule: forward_only.induct) auto

lemma forward_only_weaken:
  "forward_only m d evs \<Longrightarrow> (m' \<longrightarrow> m) \<Longrightarrow> (d' \<longrightarrow> d) \<Longrightarrow> forward_only m' d' evs"
  by (induction m d evs arbitrary: m' d' rule: forward_only.induct) auto

lemma forward_only_merged:
  "forward_only True d evs \<Longrightarrow> Merging \<notin> set evs \<and> DownloadCompleted \<notin> set evs"
  by (induction "True" d evs rule: forward_only.induct) auto

lemma forward_only_started: "forward_only m True evs \<Longrightarrow> DownloadInitialized \<notin> set evs"
  by (induction m "True" evs rule: forward_only.induct) auto

lemma handle_line_forward:
  "forward_only (isMerging st) (isDownloading st) (fst (handle_line st l))"
  by (cases l st rule: progress_rule_cases) (auto simp add: handle_line_def later_defs)

lemma handle_line_flags:
  assumes "snd (handle_line st l) = Inr st'"
  shows "isMerging st' = (isMerging st \<or> Merging \<in> set (fst (handle_line st l)))"
    and "list_ex is_downloading (fst (handle_line st l)) \<longrightarrow> isDownloading st'"
    and "isDownloading st \<longrightarrow> isDownloading st'"
  using assms
  by (cases l st rule: progress_rule_cases; auto simp add: handle_line_def later_defs)+

lemma handle_lines_forward:
  "forward_only (isMerging st) (isDownloading st) (fst (handle_lines st ls))"
proof (induction ls arbitrary: st)
  case Nil
  show ?case by simp
next
  case (Cons l ls)
  show ?case
  proof (cases "blank l")
    case True
    with Cons show ?thesis by simp
  next
    case False
    show ?thesis
    proof (cases "snd (handle_line st l)")
      case (Inl e)
      with False handle_line_forward [of st l] show ?thesis
        by (simp add: fst_and_then forward_only_append)
    next
      case (Inr st1)
      have "forward_only (isMerging st1) (isDownloading st1) (fst (handle_lines st1 ls))"
        by (rule Cons)
      then have "forward_only (isMerging st \<or> Merging \<in> set (fst (handle_line st l)))
              (isDownloading st \<or> list_ex is_downloading (fst (handle_line st l)))
              (fst (handle_lines st1 ls))"
      proof (rule forward_only_weaken)
        show "isMerging st \<or> Merging \<in> set (fst (handle_line st l)) \<longrightarrow> isMerging st1"
          using handle_line_flags(1) [OF Inr] by simp
        show "isDownloading st \<or> list_ex is_downloading (fst (handle_line st l))
              \<longrightarrow> isDownloading st1"
          using handle_line_flags(2,3) [OF Inr] by blast
      qed
      with False Inr handle_line_forward [of st l] show ?thesis
        by (simp add: fst_and_then forward_only_append)
    qed
  qed
qed

lemma handle_lines_merging:
  "snd (handle_lines st ls) = Inr st' \<Longrightarrow>
     isMerging st' = (isMerging st \<or> Merging \<in> set (fst (handle_lines st ls)))"
proof (induction ls arbitrary: st)
  case Nil
  then show ?case by simp
next
  case (Cons l ls)
  show ?case
  proof (cases "blank l")
    case True
    with Cons show ?thesis by simp
  next
    case False
    with Cons.prems obtain st1 where
      one: "snd (handle_line st l) = Inr st1" and more: "snd (handle_lines st1 ls) = Inr st'"
      by (cases "snd (handle_line st l)") (simp_all add: snd_and_then)
    from False one Cons.IH [OF more] handle_line_flags(1) [OF one] show ?thesis
      by (auto simp add: fst_and_then)
  qed
qed

text \<open>
  Claim C6, amended. In the events of a run from the initial state, nothing that follows
  the Merging event is a second Merging event or a completion notice of the download,
  and nothing that follows a Downloading event is the notice of initialization.
  Downloading, cleanup and metadata events are not held back by an earlier phase.
\<close>

theorem forward_notices:
  "fst (feed init chunks) = xs @ ev # ys \<Longrightarrow>
     (ev = Merging \<longrightarrow> Merging \<notin> set ys \<and> DownloadCompleted \<notin> set ys) \<and>
     (is_downloading ev \<longrightarrow> DownloadInitialized \<notin> set ys)"
proof -
  assume split: "fst (feed init chunks) = xs @ ev # ys"
  have "forward_only False False (fst (feed init chunks))"
    using handle_lines_forward [of init "chunk_lines chunks"]
    by (simp add: feed_chunk_lines init_def)
  with split have tail: "forward_only (Merging \<in> set xs) (list_ex is_downloading xs) (ev # ys)"
    by (simp add: forward_only_append)
  have "Merging \<notin> set ys \<and> DownloadCompleted \<notin> set ys" if "ev = Merging"
    using tail that by (auto dest: forward_only_merged)
  moreover have "DownloadInitialized \<notin> set ys" if "is_downloading ev"
    using tail that by (cases ev) (auto dest: forward_only_started)
  ultimately show ?thesis by blast
qed

text \<open>Claim C6, amended, on a merger line followed by a line of 100 percent.\<close>

theorem forward_notices_witness:
  "fst (feed init [''[Merger] x\<newline>[download] 100%\<newline>'']) =
     [] @ Merging # [Downloading (40, 0) (Num 100) None None None] \<and>
   Merging \<notin> set [Downloading (40, 0) (Num 100) None None None] \<and>
   DownloadCompleted \<notin> set [Downloading (40, 0) (Num 100) None None None]"
proof -
  have run: "fst (feed init [''[Merger] x\<newline>[download] 100%\<newline>'']) =
     [] @ Merging # [Downloading (40, 0) (Num 100) None None None]"
    by code_simp
  from forward_notices [OF run] run show ?thesis by blast
qed

text \<open>
  Claim C6 as stated fails: a percentage line after a merger line gives a Downloading
  event after the Merging event.
\<close>

theorem forward_only_counterexample:
  "fst (feed init [''[Merger] x\<newline>[download] 50%\<newline>'']) =
     [Merging, Downloading (20, 20) (Num 50) None None None]"
  by code_simp

section \<open>Properties of the end of the subprocess\<close>

text \<open>
  What the close handler does with each code, and the three rejections before the
  subprocess runs.
\<close>

lemma on_close_cases:
  "on_close st (Some 0) = Inr [AllOperationsCompleted]"
  "on_close st (Some 1) =
     Inr [if isMerging st then CompletedWithWarnings else AllOperationsCompleted,
          InstallFfmpegAdvice]"
  "c \<noteq> Some 0 \<Longrightarrow> c \<noteq> Some 1 \<Longrightarrow> on_close st c = Inl (ExitedWithCode c)"
  by (simp_all add: on_close_def)

lemma downloadVideo_rejects:
  "downloadVideo (env\<lparr>import_ok := False\<rparr>) chunks code = Rejected CouldNotFindExecutable"
  "downloadVideo (env\<lparr>import_ok := True, executable_exists := False\<rparr>) chunks code =
     Rejected ExecutableNotFoundAt"
  "downloadVideo (env\<lparr>import_ok := True, executable_exists := True, spawn_ok := False\<rparr>)
     chunks code = Rejected SpawnError"
  by (simp_all add: downloadVideo_def)

text \<open>
  A run whose handler has raised nothing ends as the exit code says, and a merge was
  seen exactly when the Merging event was emitted: code 0 is a success, code 1 is a
  degraded success after a merge and a success without one, with the advice on ffmpeg
  in both cases, and any other code is rejected with the code.
\<close>

lemma quiet_run_resolution:
  assumes "feed init chunks = (evs, Inr st')"
  shows "downloadVideo \<lparr>import_ok = True, executable_exists = True, spawn_ok = True\<rparr> chunks code =
        (if code = Some 0 then Resolved [AllOperationsCompleted]
         else if code = Some 1 then
           Resolved [if Merging \<in> set evs then CompletedWithWarnings else AllOperationsCompleted,
                     InstallFfmpegAdvice]
         else Rejected (ExitedWithCode code))"
proof -
  from assms have "snd (handle_lines init (chunk_lines chunks)) = Inr st'"
    and evs: "fst (handle_lines init (chunk_lines chunks)) = evs"
    by (simp_all add: feed_chunk_lines)
  then have "isMerging st' = (Merging \<in> set evs)"
    using handle_lines_merging [of init "chunk_lines chunks" st'] by (simp add: init_def)
  with assms show ?thesis
    by (auto simp add: downloadVideo_def on_close_def)
qed

lemma quiet_run_degraded:
  assumes "feed init chunks = (evs, Inr st')"
    and "downloadVideo \<lparr>import_ok = True, executable_exists = True, spawn_ok = True\<rparr> chunks code =
           Resolved notices"
  shows "degraded notices = (code = Some 1 \<and> Merging \<in> set evs)"
  using assms(2) unfolding quiet_run_resolution [OF assms(1)]
  by (auto simp add: degraded_def split: if_splits)

text \<open>A run whose handler has thrown never comes to the close handler.\<close>

lemma thrown_run_uncaught:
  assumes "feed init chunks = (evs, Inl e)"
  shows "downloadVideo \<lparr>import_ok = True, executable_exists = True, spawn_ok = True\<rparr> chunks code =
           Uncaught e"
  using assms by (simp add: downloadVideo_def)

text \<open>
  Claim C5 says that every run of the subprocess that ends with code 0 resolves as a
  success. When the standard output holds the line \<^verbatim>\<open>[download] 150%\<close>, the handler
  throws the RangeError of \<open>createProgressBar\<close>; nothing catches it, and the promise is
  neither resolved nor rejected when the subprocess ends with code 0.
\<close>

theorem exit_zero_uncaught:
  "feed init [''[download] 150%''] = ([], Inl RangeError) \<and>
   downloadVideo \<lparr>import_ok = True, executable_exists = True, spawn_ok = True\<rparr>
     [''[download] 150%''] (Some 0) = Uncaught RangeError"
proof -
  have run: "feed init [''[download] 150%''] = ([], Inl RangeError)" by code_simp
  from run thrown_run_uncaught [OF run] show ?thesis by simp
qed

section \<open>Properties of the choice of the quality\<close>

lemma qualityKeys_eq:
  "qualityKeys = [''360'', ''480'', ''720'', ''1080'', ''1440'', ''2160'', ''audio'', ''best'']"
  by (simp add: qualityKeys_def qualities_def)

lemma qualities_get_key: "key \<in> set qualityKeys \<Longrightarrow> qualities_get key \<noteq> Undefined"
proof -
  assume "key \<in> set qualityKeys"
  then have "map_of qualities key \<noteq> None"
    by (simp add: qualityKeys_def map_of_eq_None_iff)
  then show ?thesis by (auto simp add: qualities_get_def)
qed

lemma qualities_get_unknown:
  "key \<notin> set qualityKeys \<Longrightarrow> key \<notin> set object_prototype_names \<Longrightarrow>
     qualities_get key = Undefined"
proof -
  assume "key \<notin> set qualityKeys" and other: "key \<notin> set object_prototype_names"
  then have "map_of qualities key = None"
    by (simp add: qualityKeys_def map_of_eq_None_iff)
  with other show ?thesis by (simp add: qualities_get_def)
qed

lemma select_quality_index:
  assumes "parseInt s = Some n" "1 \<le> n" "n \<le> 8"
  shows "select_quality s = (qualityKeys ! nat (n - 1), False)"
proof -
  have len: "length qualityKeys = 8" by (simp add: qualityKeys_eq)
  with assms have "nat (n - 1) < length qualityKeys" by simp
  then have "qualityKeys ! nat (n - 1) \<in> set qualityKeys" by (rule nth_mem)
  then have "qualities_get (qualityKeys ! nat (n - 1)) \<noteq> Undefined" by (rule qualities_get_key)
  with assms len show ?thesis by (simp add: select_quality_def Let_def)
qed

lemma select_quality_no_index:
  assumes "\<not> (\<exists>n. parseInt s = Some n \<and> 1 \<le> n \<and> n \<le> 8)"
  shows "select_quality s =
    (let quality = (if toLowerCase s = [] then ''best'' else toLowerCase s)
     in if qualities_get quality = Undefined then (''best'', True) else (quality, False))"
proof (cases "parseInt s")
  case None
  then show ?thesis by (simp add: select_quality_def Let_def)
next
  case (Some n)
  with assms have out: "n < 1 \<or> 8 < n" by auto
  have len: "length qualityKeys = 8" by (simp add: qualityKeys_eq)
  from out Some show ?thesis by (auto simp add: select_quality_def Let_def len)
qed

lemma select_quality_key:
  assumes "\<not> (\<exists>n. parseInt s = Some n \<and> 1 \<le> n \<and> n \<le> 8)" "toLowerCase s \<in> set qualityKeys"
  shows "select_quality s = (toLowerCase s, False)"
proof -
  from assms(2) have "toLowerCase s \<noteq> []" by (auto simp add: qualityKeys_eq)
  with assms(2) qualities_get_key [OF assms(2)] show ?thesis
    by (simp add: select_quality_no_index [OF assms(1)] Let_def)
qed

lemma select_quality_other:
  assumes "\<not> (\<exists>n. parseInt s = Some n \<and> 1 \<le> n \<and> n \<le> 8)"
    "toLowerCase s \<notin> set qualityKeys" "toLowerCase s \<notin> set object_prototype_names"
  shows "fst (select_quality s) = ''best''"
  using assms(2,3)
  by (simp add: select_quality_no_index [OF assms(1)] Let_def qualities_get_unknown)

text \<open>Lowering a string changes letters only.\<close>

lemma of_char_space: "is_space c \<Longrightarrow> of_char c \<in> {9, 10, 11, 12, 13, 32, 160 :: nat}"
  by (auto simp add: is_space_def)

lemma of_char_digit: "is_digit c \<Longrightarrow> 48 \<le> (of_char c :: nat) \<and> (of_char c :: nat) \<le> 57"
  by (auto simp add: is_digit_def)

lemma lower_char_other:
  "(of_char c :: nat) < 65 \<or> (of_char c :: nat) = 160 \<Longrightarrow> lower_char c = c"
  by (auto simp add: lower_char_def Let_def)

lemma lower_char_space: "is_space c \<Longrightarrow> lower_char c = c"
  by (rule lower_char_other) (use of_char_space [of c] in auto)

lemma lower_char_digit: "is_digit c \<Longrightarrow> lower_char c = c"
  by (rule lower_char_other) (use of_char_digit [of c] in auto)

lemma lower_char_letter:
  assumes "lower_char c = d" "\<not> is_space d" "\<not> is_digit d" "d \<noteq> CHR ''-''" "d \<noteq> CHR ''+''"
  shows "\<not> is_space c \<and> \<not> is_digit c \<and> c \<noteq> CHR ''-'' \<and> c \<noteq> CHR ''+''"
proof -
  have "c = d" if "is_space c" using that assms(1) by (simp add: lower_char_space)
  moreover have "c = d" if "is_digit c" using that assms(1) by (simp add: lower_char_digit)
  moreover have "c = d" if "c = CHR ''-'' \<or> c = CHR ''+''"
    using that assms(1) by (auto simp add: lower_char_def)
  ultimately show ?thesis using assms(2-5) by blast
qed

lemma lower_char_to_digit: "lower_char c = d \<Longrightarrow> is_digit d \<Longrightarrow> c = d"
proof -
  assume low: "lower_char c = d" and dig: "is_digit d"
  show "c = d"
  proof (rule ccontr)
    assume "c \<noteq> d"
    with low have "lower_char c \<noteq> c" by simp
    then have up: "lower_char c = char_of (of_char c + 32 :: nat)"
      and range: "(65 \<le> (of_char c :: nat) \<and> (of_char c :: nat) \<le> 90) \<or>
        (192 \<le> (of_char c :: nat) \<and> (of_char c :: nat) \<le> 222)"
      by (auto simp add: lower_char_def Let_def split: if_splits)
    from range have "(of_char (char_of (of_char c + 32 :: nat)) :: nat) = of_char c + 32"
      by (auto simp add: of_char_of)
    with up low have "(of_char d :: nat) = of_char c + 32" by simp
    with range of_char_digit [OF dig] show False by auto
  qed
qed

lemma toLowerCase_digits: "toLowerCase s = ds \<Longrightarrow> list_all is_digit ds \<Longrightarrow> s = ds"
proof (induction s arbitrary: ds)
  case Nil
  then show ?case by (simp add: toLowerCase_def)
next
  case (Cons c s)
  then obtain d ds' where ds: "ds = d # ds'" "lower_char c = d" "toLowerCase s = ds'"
    by (auto simp add: toLowerCase_def)
  with Cons.prems(2) have "is_digit d" "list_all is_digit ds'" by simp_all
  with ds Cons.IH [of ds'] lower_char_to_digit [of c d] show ?case by simp
qed

lemma parseInt_letter:
  assumes "\<not> is_space c" "\<not> is_digit c" "c \<noteq> CHR ''-''" "c \<noteq> CHR ''+''"
  shows "parseInt (c # r) = None"
proof -
  from assms(2) have "c \<noteq> CHR ''0''" by (auto simp add: is_digit_def)
  with assms show ?thesis by (simp add: parseInt_def Let_def)
qed

lemma parseInt_lowered_letter:
  assumes "toLowerCase s = d # ds" "\<not> is_space d" "\<not> is_digit d" "d \<noteq> CHR ''-''" "d \<noteq> CHR ''+''"
  shows "parseInt s = None"
proof -
  from assms(1) obtain c r where s: "s = c # r" "lower_char c = d"
    by (auto simp add: toLowerCase_def)
  from lower_char_letter [OF s(2) assms(2-5)] show ?thesis
    unfolding s(1) by (intro parseInt_letter) simp_all
qed

lemma parseInt_keys:
  "parseInt ''360'' = Some 360" "parseInt ''480'' = Some 480" "parseInt ''720'' = Some 720"
  "parseInt ''1080'' = Some 1080" "parseInt ''1440'' = Some 1440" "parseInt ''2160'' = Some 2160"
  by code_simp+

lemma not_digit_space_a: "\<not> is_space CHR ''a''" "\<not> is_digit CHR ''a''"
  "\<not> is_space CHR ''b''" "\<not> is_digit CHR ''b''"
  by (simp_all add: is_space_def is_digit_def)

lemma key_has_no_index:
  assumes "toLowerCase s \<in> set qualityKeys"
  shows "\<not> (\<exists>n. parseInt s = Some n \<and> 1 \<le> n \<and> n \<le> 8)"
proof -
  consider (num) "toLowerCase s \<in> {''360'', ''480'', ''720'', ''1080'', ''1440'', ''2160''}"
    | (audio) "toLowerCase s = ''audio''" | (best) "toLowerCase s = ''best''"
    using assms by (auto simp add: qualityKeys_eq)
  then show ?thesis
  proof cases
    case num
    then have dig: "list_all is_digit (toLowerCase s)" by (auto simp add: is_digit_def)
    have eq: "toLowerCase s = s" using toLowerCase_digits [OF refl dig] by (rule sym)
    from num have "s \<in> {''360'', ''480'', ''720'', ''1080'', ''1440'', ''2160''}"
      by (simp only: eq)
    then show ?thesis using parseInt_keys by auto
  next
    case audio
    then have "parseInt s = None"
      by (rule parseInt_lowered_letter) (simp_all add: not_digit_space_a)
    then show ?thesis by simp
  next
    case best
    then have "parseInt s = None"
      by (rule parseInt_lowered_letter) (simp_all add: not_digit_space_a)
    then show ?thesis by simp
  qed
qed

lemma select_quality_examples:
  "select_quality ''720'' = (''720'', False)"
  "select_quality ''9'' = (''best'', True)"
  "select_quality [] = (''best'', False)"
  by code_simp+

text \<open>
  Claim C9, amended. An input that \<^verbatim>\<open>parseInt\<close> reads as an integer from 1 to 8
  (blanks, a sign, \<^verbatim>\<open>0x\<close>, then digits; what follows the digits is ignored) selects the
  key at that position of the catalog. A key of the catalog in any case of letters
  selects itself. Any other input, apart from the names that the catalog object
  inherits from \<^verbatim>\<open>Object.prototype\<close>, selects \<^verbatim>\<open>best\<close>; no input raises an error.
  In particular \<^verbatim>\<open>720\<close> selects \<^verbatim>\<open>720\<close>, and \<^verbatim>\<open>9\<close> and the empty string select
  \<^verbatim>\<open>best\<close>.
\<close>

theorem select_quality_cases:
  "(parseInt s1 = Some n \<and> 1 \<le> n \<and> n \<le> 8 \<longrightarrow>
      select_quality s1 = (qualityKeys ! nat (n - 1), False)) \<and>
   (toLowerCase s2 \<in> set qualityKeys \<longrightarrow> select_quality s2 = (toLowerCase s2, False)) \<and>
   (\<not> (\<exists>n. parseInt s3 = Some n \<and> 1 \<le> n \<and> n \<le> 8) \<and>
    toLowerCase s3 \<notin> set qualityKeys \<and> toLowerCase s3 \<notin> set object_prototype_names \<longrightarrow>
      fst (select_quality s3) = ''best'') \<and>
   select_quality ''720'' = (''720'', False) \<and>
   select_quality ''9'' = (''best'', True) \<and>
   select_quality [] = (''best'', False)"
  using select_quality_index [of s1 n] select_quality_key [OF key_has_no_index, of s2]
    select_quality_other [of s3] select_quality_examples
  by blast

text \<open>Claim C9, amended, on the inputs \<^verbatim>\<open>3\<close>, \<^verbatim>\<open>AUDIO\<close> and \<^verbatim>\<open>9\<close>.\<close>

theorem select_quality_cases_witness:
  "parseInt ''3'' = Some 3 \<and> select_quality ''3'' = (''720'', False) \<and>
   toLowerCase ''AUDIO'' \<in> set qualityKeys \<and> select_quality ''AUDIO'' = (''audio'', False) \<and>
   \<not> (\<exists>n. parseInt ''9'' = Some n \<and> 1 \<le> n \<and> n \<le> 8) \<and>
   toLowerCase ''9'' \<notin> set qualityKeys \<and> toLowerCase ''9'' \<notin> set object_prototype_names \<and>
   fst (select_quality ''9'') = ''best''"
proof -
  have p3: "parseInt ''3'' = Some 3" by code_simp
  have k3: "qualityKeys ! nat (3 - 1) = ''720''" by code_simp
  have la: "toLowerCase ''AUDIO'' = ''audio''" by code_simp
  have ka: "''audio'' \<in> set qualityKeys" by (simp add: qualityKeys_eq)
  have p9: "parseInt ''9'' = Some 9" by code_simp
  have l9: "toLowerCase ''9'' = ''9''" by code_simp
  have k9: "''9'' \<notin> set qualityKeys" "''9'' \<notin> set object_prototype_names"
    by (simp_all add: qualityKeys_eq object_prototype_names_def)
  from select_quality_cases [of "''3''" 3 "''AUDIO''" "''9''"] p3 k3 la ka p9 l9 k9
  show ?thesis by auto
qed

text \<open>
  Claim C9 as stated fails: \<^verbatim>\<open>3abc\<close> is neither a key of the catalog nor a string of
  digits, and it selects the third profile, because \<^verbatim>\<open>parseInt\<close> reads the leading 3.
\<close>

theorem select_quality_counterexample:
  "toLowerCase ''3abc'' \<notin> set qualityKeys \<and> \<not> list_all is_digit ''3abc'' \<and>
   select_quality ''3abc'' = (''720'', False)"
proof -
  have "toLowerCase ''3abc'' \<notin> set qualityKeys" by code_simp
  moreover have "\<not> list_all is_digit ''3abc''" by code_simp
  moreover have "select_quality ''3abc'' = (''720'', False)" by code_simp
  ultimately show ?thesis by simp
qed

end
